theory Spec2Isabelle
  imports Main "HOL-Library.Sublist"
begin

section \<open>Python strings\<close>

text \<open>
  A Python \<open>str\<close> is a sequence of Unicode code points, so a string is a list of natural
  numbers; \<open>str ''abc''\<close> writes an ASCII literal. The double quote is code point 34, the
  semicolon 59, the colon 58, the backslash 92.
\<close>

type_synonym ustring = "nat list"

abbreviation str :: "string \<Rightarrow> ustring" where
  "str \<equiv> map of_char"

definition dquote :: nat where
  "dquote = 34"

definition backslash :: nat where
  "backslash = 92"

text \<open>
  \<open>str.isspace\<close> on one code point: the whitespace table of CPython, which \<open>str.strip()\<close>,
  \<open>str.split()\<close> and the regular expression class \<open>\s\<close> share.
\<close>

definition isspace :: "nat \<Rightarrow> bool" where
  "isspace c \<longleftrightarrow>
     (9 \<le> c \<and> c \<le> 13) \<or> (28 \<le> c \<and> c \<le> 32) \<or> c = 133 \<or> c = 160 \<or> c = 5760 \<or>
     (8192 \<le> c \<and> c \<le> 8202) \<or> c = 8232 \<or> c = 8233 \<or> c = 8239 \<or> c = 8287 \<or> c = 12288"

text \<open>\<open>s.lstrip()\<close>, \<open>s.rstrip()\<close>, \<open>s.strip()\<close>: whitespace removed at the ends.\<close>

definition py_lstrip :: "ustring \<Rightarrow> ustring" where
  "py_lstrip s = dropWhile isspace s"

definition py_rstrip :: "ustring \<Rightarrow> ustring" where
  "py_rstrip s = rev (dropWhile isspace (rev s))"

definition py_strip :: "ustring \<Rightarrow> ustring" where
  "py_strip s = py_lstrip (py_rstrip s)"

text \<open>\<open>s.lstrip(chars)\<close>, \<open>s.rstrip(chars)\<close>: every leading or trailing member of \<open>chars\<close> goes.\<close>

definition py_lstrip_chars :: "ustring \<Rightarrow> ustring \<Rightarrow> ustring" where
  "py_lstrip_chars chars s = dropWhile (\<lambda>c. c \<in> set chars) s"

definition py_rstrip_chars :: "ustring \<Rightarrow> ustring \<Rightarrow> ustring" where
  "py_rstrip_chars chars s = rev (dropWhile (\<lambda>c. c \<in> set chars) (rev s))"

text \<open>
  \<open>s.split()\<close> with no separator: the maximal runs of non-whitespace, in order. The
  accumulator holds the current run, reversed.
\<close>

primrec split_ws_acc :: "ustring \<Rightarrow> ustring \<Rightarrow> ustring list" where
  "split_ws_acc acc [] = (if acc = [] then [] else [rev acc])"
| "split_ws_acc acc (c # cs) =
     (if isspace c then (if acc = [] then split_ws_acc [] cs else rev acc # split_ws_acc [] cs)
      else split_ws_acc (c # acc) cs)"

definition py_split_ws :: "ustring \<Rightarrow> ustring list" where
  "py_split_ws s = split_ws_acc [] s"

text \<open>
  \<open>s.split(sep, maxsplit)\<close>: the text is cut at the leftmost occurrences of \<open>sep\<close>, scanning
  on after each one, at most \<open>maxsplit\<close> times (\<open>None\<close>: no limit). Python raises
  \<open>ValueError\<close> on an empty separator; every separator of this program is a non-empty
  literal, and the model returns no piece at all for the empty one.
\<close>

fun split_acc :: "'a list \<Rightarrow> nat option \<Rightarrow> 'a list \<Rightarrow> 'a list \<Rightarrow> 'a list list" where
  "split_acc [] k acc s = []"
| "split_acc (p # ps) k acc [] = [rev acc]"
| "split_acc (p # ps) k acc (c # cs) =
     (if k \<noteq> Some 0 \<and> prefix (p # ps) (c # cs)
      then rev acc # split_acc (p # ps) (map_option (\<lambda>n. n - 1) k) [] (drop (length ps) cs)
      else split_acc (p # ps) k (c # acc) cs)"

definition py_split :: "'a list \<Rightarrow> 'a list \<Rightarrow> 'a list list" where
  "py_split sep s = split_acc sep None [] s"

definition py_split_max :: "'a list \<Rightarrow> nat \<Rightarrow> 'a list \<Rightarrow> 'a list list" where
  "py_split_max sep maxsplit s = split_acc sep (Some maxsplit) [] s"

text \<open>\<open>sep.join(parts)\<close>.\<close>

fun py_join :: "'a list \<Rightarrow> 'a list list \<Rightarrow> 'a list" where
  "py_join sep [] = []"
| "py_join sep [x] = x"
| "py_join sep (x # y # ys) = x @ sep @ py_join sep (y # ys)"

text \<open>
  \<open>s.replace(old, new)\<close>: the leftmost occurrences of \<open>old\<close>, scanning on after each one,
  become \<open>new\<close>; an empty \<open>old\<close> puts \<open>new\<close> before every element and at the end.
\<close>

fun py_replace :: "'a list \<Rightarrow> 'a list \<Rightarrow> 'a list \<Rightarrow> 'a list" where
  "py_replace [] new s = new @ concat (map (\<lambda>c. c # new) s)"
| "py_replace (p # ps) new [] = []"
| "py_replace (p # ps) new (c # cs) =
     (if prefix (p # ps) (c # cs) then new @ py_replace (p # ps) new (drop (length ps) cs)
      else c # py_replace (p # ps) new cs)"

text \<open>
  \<open>s.partition(sep)\<close>: the text before the first occurrence of \<open>sep\<close>, \<open>sep\<close>, and the text
  after it, or \<open>(s, "", "")\<close> when there is none. \<open>sub in s\<close> is the same search.
\<close>

primrec find_acc :: "'a list \<Rightarrow> 'a list \<Rightarrow> 'a list \<Rightarrow> ('a list \<times> 'a list) option" where
  "find_acc sep acc [] = (if sep = [] then Some (rev acc, []) else None)"
| "find_acc sep acc (c # cs) =
     (if prefix sep (c # cs) then Some (rev acc, drop (length sep) (c # cs))
      else find_acc sep (c # acc) cs)"

definition py_in :: "'a list \<Rightarrow> 'a list \<Rightarrow> bool" where
  "py_in sub s \<longleftrightarrow> find_acc sub [] s \<noteq> None"

definition py_partition :: "'a list \<Rightarrow> 'a list \<Rightarrow> 'a list \<times> 'a list \<times> 'a list" where
  "py_partition sep s =
     (case find_acc sep [] s of None \<Rightarrow> (s, [], []) | Some (before, after) \<Rightarrow> (before, sep, after))"

section \<open>Normalization utilities (statement.py)\<close>

definition normalize_whitespace :: "ustring \<Rightarrow> ustring \<Rightarrow> ustring" where
  "normalize_whitespace text base_whitespace = py_strip (py_join base_whitespace (py_split_ws text))"

definition strip_terminating_semicolon :: "ustring \<Rightarrow> ustring" where
  "strip_terminating_semicolon sql = py_strip (py_rstrip_chars (str '';'') (py_strip sql))"

definition strip_double_quotes :: "ustring \<Rightarrow> ustring" where
  "strip_double_quotes sql =
     (let sql1 = py_rstrip_chars [dquote] (py_strip sql)
      in py_strip (py_lstrip_chars [dquote] (py_strip sql1)))"

definition coerce_to_quoted :: "ustring \<Rightarrow> ustring" where
  "coerce_to_quoted text =
     (if py_in (str ''.'') text
      then (case py_partition (str ''.'') text of
              (schema, _, name) \<Rightarrow>
                ([dquote] @ strip_double_quotes schema @ [dquote]) @ str ''.'' @
                ([dquote] @ strip_double_quotes name @ [dquote]))
      else [dquote] @ strip_double_quotes text @ [dquote])"

definition coerce_to_unquoted :: "ustring \<Rightarrow> ustring" where
  "coerce_to_unquoted text = py_join [] (py_split [dquote] text)"

section \<open>Exceptions\<close>

text \<open>
  The exceptions the modelled code raises or lets through, each with its message. A function
  that can raise returns \<open>py_exception + 'a\<close>, the exception on the left.
\<close>

datatype py_exception =
    ValueError ustring
  | KeyError ustring
  | IndexError
  | PgQueryExc ustring
  | SQLParseFailure ustring

section \<open>The \<open>parse\<close> library\<close>

text \<open>
  \<open>parse(template, text, case_sensitive=False)\<close> of the third-party \<open>parse\<close> package turns the
  template into a regular expression and matches the whole text against it with
  \<open>re.IGNORECASE | re.DOTALL\<close>. The templates of this program use three kinds of field:
  \<open>{}\<close> and \<open>{name}\<close> become the lazy group \<open>(.+?)\<close>, \<open>{:s}\<close> becomes the greedy group \<open>(\s+)\<close>;
  every other character of the template is a literal. A template outside this fragment is
  not modelled: it has no compiled form.
\<close>

datatype item = Lit nat | Lazy "ustring option" | Spaces

definition ascii_alpha :: "nat \<Rightarrow> bool" where
  "ascii_alpha c \<longleftrightarrow> (65 \<le> c \<and> c \<le> 90) \<or> (97 \<le> c \<and> c \<le> 122)"

definition ascii_word :: "nat \<Rightarrow> bool" where
  "ascii_word c \<longleftrightarrow> ascii_alpha c \<or> (48 \<le> c \<and> c \<le> 57) \<or> c = 95"

definition field_item :: "ustring \<Rightarrow> item option" where
  "field_item fld =
     (if fld = [] then Some (Lazy None)
      else if fld = str '':s'' then Some Spaces
      else if ascii_alpha (hd fld) \<and> list_all ascii_word fld then Some (Lazy (Some fld))
      else None)"

text \<open>The state is \<open>None\<close> outside braces and the field read so far, reversed, inside them.\<close>

primrec compile_acc :: "ustring option \<Rightarrow> ustring \<Rightarrow> item list option" where
  "compile_acc st [] = (case st of None \<Rightarrow> Some [] | Some acc \<Rightarrow> None)"
| "compile_acc st (c # cs) =
     (case st of
        None \<Rightarrow>
          if c = 123 then compile_acc (Some []) cs
          else if c = 125 then None
          else map_option ((#) (Lit c)) (compile_acc None cs)
      | Some acc \<Rightarrow>
          if c = 125
          then (case field_item (rev acc) of
                  None \<Rightarrow> None
                | Some it \<Rightarrow> map_option ((#) it) (compile_acc None cs))
          else compile_acc (Some (c # acc)) cs)"

definition compile_template :: "ustring \<Rightarrow> item list option" where
  "compile_template template = compile_acc None template"

text \<open>
  One literal of the pattern against one character of the text under \<open>re.IGNORECASE\<close>, for an
  ASCII literal: the two agree after lowercasing, or the text has one of the four non-ASCII
  letters that Python's \<open>re\<close> folds to an ASCII one (U+0130 and U+0131 to \<open>i\<close>, U+017F to
  \<open>s\<close>, U+212A to \<open>k\<close>).
\<close>

definition ascii_lower :: "nat \<Rightarrow> nat" where
  "ascii_lower c = (if 65 \<le> c \<and> c \<le> 90 then c + 32 else c)"

definition ci_eq :: "nat \<Rightarrow> nat \<Rightarrow> bool" where
  "ci_eq p x \<longleftrightarrow>
     ascii_lower x = ascii_lower p \<or>
     (ascii_lower p = 105 \<and> (x = 304 \<or> x = 305)) \<or>
     (ascii_lower p = 115 \<and> x = 383) \<or>
     (ascii_lower p = 107 \<and> x = 8490)"

text \<open>
  The backtracking of the matcher, in its order of preference. A lazy group takes one
  character and, each time the rest of the pattern fails, one more; a greedy whitespace group
  takes every whitespace character and, each time the rest fails, one fewer, never fewer than
  one. The continuation gets the group's text and the remaining text.
\<close>

primrec lazy_group :: "(ustring \<Rightarrow> ustring \<Rightarrow> 'r option) \<Rightarrow> ustring \<Rightarrow> ustring \<Rightarrow> 'r option" where
  "lazy_group k acc [] = None"
| "lazy_group k acc (c # cs) =
     (case k (rev (c # acc)) cs of
        Some r \<Rightarrow> Some r
      | None \<Rightarrow> lazy_group k (c # acc) cs)"

primrec greedy_spaces :: "(ustring \<Rightarrow> ustring \<Rightarrow> 'r option) \<Rightarrow> ustring \<Rightarrow> ustring \<Rightarrow> 'r option" where
  "greedy_spaces k acc [] = None"
| "greedy_spaces k acc (c # cs) =
     (if isspace c
      then (case greedy_spaces k (c # acc) cs of
              Some r \<Rightarrow> Some r
            | None \<Rightarrow> k (rev (c # acc)) cs)
      else None)"

text \<open>
  The groups of a match in the order of the template, each with its name if it has one. The
  end of the pattern must be the end of the text.
\<close>

primrec match_items :: "item list \<Rightarrow> ustring \<Rightarrow> (ustring option \<times> ustring) list option" where
  "match_items [] = (\<lambda>s. if s = [] then Some [] else None)"
| "match_items (it # its) =
     (\<lambda>s. case it of
        Lit p \<Rightarrow>
          (case s of
             [] \<Rightarrow> None
           | x # xs \<Rightarrow> if ci_eq p x then match_items its xs else None)
      | Lazy name \<Rightarrow>
          lazy_group (\<lambda>g rest. map_option ((#) (name, g)) (match_items its rest)) [] s
      | Spaces \<Rightarrow>
          greedy_spaces (\<lambda>g rest. map_option ((#) (None, g)) (match_items its rest)) [] s)"

text \<open>The \<open>Result\<close> object: the anonymous groups in order, and the named ones by name.\<close>

record parse_match =
  fixed :: "ustring list"
  named :: "(ustring \<times> ustring) list"

definition result_of :: "(ustring option \<times> ustring) list \<Rightarrow> parse_match" where
  "result_of groups =
     \<lparr>fixed = concat (map (\<lambda>(n, g). case n of None \<Rightarrow> [g] | Some _ \<Rightarrow> []) groups),
      named = concat (map (\<lambda>(n, g). case n of None \<Rightarrow> [] | Some nm \<Rightarrow> [(nm, g)]) groups)\<rparr>"

definition field_names :: "item list \<Rightarrow> ustring list" where
  "field_names its = concat (map (\<lambda>it. case it of Lazy (Some nm) \<Rightarrow> [nm] | _ \<Rightarrow> []) its)"

text \<open>
  A name used twice in a template is a back-reference in the library; no template of this
  program has one, and such a template has no model here.
\<close>

definition parse :: "ustring \<Rightarrow> ustring \<Rightarrow> parse_match option" where
  "parse template text =
     (case compile_template template of
        None \<Rightarrow> None
      | Some its \<Rightarrow>
          if distinct (field_names its) then map_option result_of (match_items its text)
          else None)"

text \<open>\<open>name in result\<close> and \<open>result[name]\<close>, which raises \<open>KeyError\<close> for a missing name.\<close>

definition result_contains :: "ustring \<Rightarrow> parse_match \<Rightarrow> bool" where
  "result_contains name r \<longleftrightarrow> map_of (named r) name \<noteq> None"

definition result_get :: "parse_match \<Rightarrow> ustring \<Rightarrow> py_exception + ustring" where
  "result_get r name = (case map_of (named r) name of None \<Rightarrow> Inl (KeyError name) | Some v \<Rightarrow> Inr v)"

section \<open>Materialized views (pg\_materialized\_view.py)\<close>

record pg_materialized_view =
  schema :: ustring
  signature :: ustring
  definition_sql :: ustring
  with_data :: bool
  include_schema_prefix :: bool

text \<open>
  \<open>PGMaterializedView.__init__\<close>. The module constant \<open>NEVER_INCLUDE_SCHEMA\<close>, read from the
  environment when the module is loaded, is the first argument.
\<close>

definition init :: "bool \<Rightarrow> ustring \<Rightarrow> ustring \<Rightarrow> ustring \<Rightarrow> bool \<Rightarrow> pg_materialized_view" where
  "init never_include_schema signature_arg definition_arg schema_arg with_data_arg =
     (let schema1 = (if never_include_schema then str ''public'' else schema_arg)
      in \<lparr>schema = coerce_to_unquoted (normalize_whitespace schema1 (str '' '')),
          signature = coerce_to_unquoted (normalize_whitespace signature_arg (str '' '')),
          definition_sql = strip_terminating_semicolon definition_arg,
          with_data = with_data_arg,
          include_schema_prefix = (schema1 \<noteq> str ''public'')\<rparr>)"

definition templates :: "ustring list" where
  "templates =
     [str ''create{}materialized{}view{:s}{schema}.{signature}{:s}as{:s}{definition}{:s}with{:s}data'',
      str ''create{}materialized{}view{:s}{schema}.{signature}{:s}as{:s}{definition}{}with{:s}{no_data}{:s}data'',
      str ''create{}materialized{}view{:s}{schema}.{signature}{:s}as{:s}{definition}'',
      str ''create{}materialized{}view{:s}{signature}{:s}as{:s}{definition}{:s}with{:s}data'',
      str ''create{}materialized{}view{:s}{signature}{:s}as{:s}{definition}{}with{:s}{no_data}{:s}data'',
      str ''create{}materialized{}view{:s}{signature}{:s}as{:s}{definition}'']"

text \<open>The body of the loop of \<open>from_sql\<close> for a template that matched.\<close>

definition from_match :: "bool \<Rightarrow> parse_match \<Rightarrow> py_exception + pg_materialized_view" where
  "from_match never_include_schema result =
     (let with_data1 = \<not> result_contains (str ''no_data'') result
      in case result_get result (str ''signature'') of
           Inl e \<Rightarrow> Inl e
         | Inr sig_raw \<Rightarrow>
             (case py_split (str ''('') sig_raw of
                [] \<Rightarrow> Inl IndexError
              | signature1 # _ \<Rightarrow>
                  let schema0 = (case map_of (named result) (str ''schema'') of
                                   None \<Rightarrow> str ''public'' | Some v \<Rightarrow> v);
                      schema1 = (if never_include_schema then str ''public'' else schema0)
                  in case result_get result (str ''definition'') of
                       Inl e \<Rightarrow> Inl e
                     | Inr definition1 \<Rightarrow>
                         Inr (init never_include_schema
                                (py_replace [dquote] [] signature1) definition1 schema1 with_data1)))"

text \<open>The loop: the first template that matches decides; none matching is the failure.\<close>

fun try_templates :: "bool \<Rightarrow> ustring list \<Rightarrow> ustring \<Rightarrow> py_exception + pg_materialized_view" where
  "try_templates never_include_schema [] sql =
     Inl (SQLParseFailure (str ''Failed to parse SQL into PGView '' @ [dquote, dquote, dquote] @ sql
            @ [dquote, dquote, dquote]))"
| "try_templates never_include_schema (template # rest) sql =
     (case parse template sql of
        Some result \<Rightarrow> from_match never_include_schema result
      | None \<Rightarrow> try_templates never_include_schema rest sql)"

definition from_sql :: "bool \<Rightarrow> ustring \<Rightarrow> py_exception + pg_materialized_view" where
  "from_sql never_include_schema sql =
     try_templates never_include_schema templates (strip_terminating_semicolon sql)"

section \<open>The grammar codec\<close>

text \<open>
  The parser and serializer of SQL (\<open>psqlparse2\<close>, \<open>pg_query\<close>) are libraries, not code of this
  program: they are a parameter of the model. The parse tree is the protobuf message the
  code reads and writes: a list of top-level statements, each of one kind; a create-function
  statement has the fields below. \<open>'n\<close> is the type of the nodes the code only moves around
  (names, parameters, types, options).
\<close>

record 'n create_function_stmt =
  is_procedure :: bool
  replace :: bool
  funcname :: "'n list"
  parameters :: "'n list"
  return_type :: "'n option"
  options :: "'n list"
  sql_body :: "'n option"

datatype 'n stmt =
    CreateFunctionStmt "'n create_function_stmt"
  | CreateProcedureStmt "'n create_function_stmt"
  | OtherStmt 'n

record 'n parse_tree =
  stmts :: "'n stmt list"

text \<open>
  \<open>query_to_pb\<close> parses or raises \<open>PgQueryExc\<close> (on the left, the text of the exception);
  \<open>pb_to_query\<close> serializes a tree, or raises the same; \<open>sval\<close> reads the string of a name node;
  \<open>show_stmt\<close> is the text Python prints for a statement. \<open>HasField\<close> is protobuf's: asked
  for a field that the message type does not declare it raises a \<open>ValueError\<close> of its own,
  and \<open>has_field_error\<close> gives the text of that exception for such a name, \<open>None\<close> for a
  name the type declares. The kind \<open>CreateProcedureStmt\<close> is the one the code asks for by the
  name \<open>create_procedure_stmt\<close>; a tree has it only if the library declares that field.
\<close>

record 'n codec =
  query_to_pb :: "ustring \<Rightarrow> ustring + 'n parse_tree"
  pb_to_query :: "'n parse_tree \<Rightarrow> ustring + ustring"
  sval :: "'n \<Rightarrow> ustring"
  show_stmt :: "'n stmt \<Rightarrow> ustring"
  has_field_error :: "ustring \<Rightarrow> ustring option"

text \<open>The decimal digits of a number, as \<open>str(n)\<close> gives them.\<close>

fun show_nat :: "nat \<Rightarrow> ustring" where
  "show_nat n = (if n < 10 then [48 + n] else show_nat (n div 10) @ [48 + n mod 10])"

text \<open>
  \<open>s.lower()\<close>, for the ASCII letters. Python also lowers letters beyond ASCII; the program
  compares the result with the ASCII texts \<open>create function\<close> and \<open>create function foo.bar()\<close>
  only, and no character beyond ASCII lowers to a letter of these.
\<close>

definition py_lower :: "ustring \<Rightarrow> ustring" where
  "py_lower s = map ascii_lower s"

section \<open>Splitting a routine (statement.py)\<close>

definition get_create_function_stmt ::
    "'n codec \<Rightarrow> 'n parse_tree \<Rightarrow> py_exception + 'n create_function_stmt" where
  "get_create_function_stmt c parse_tree1 =
     (if length (stmts parse_tree1) \<noteq> 1
      then Inl (ValueError (str ''Expected 1 statement, got '' @ show_nat (length (stmts parse_tree1))))
      else (case stmts parse_tree1 of
              [] \<Rightarrow> Inl IndexError
            | CreateFunctionStmt s # _ \<Rightarrow> Inr s
            | st # _ \<Rightarrow>
                (case has_field_error c (str ''create_procedure_stmt'') of
                   Some m \<Rightarrow> Inl (ValueError m)
                 | None \<Rightarrow>
                     (case st of
                        CreateProcedureStmt s \<Rightarrow> Inr s
                      | _ \<Rightarrow>
                          Inl (ValueError
                                 (str ''Expected create_function_stmt or create_procedure_stmt got ''
                                    @ show_stmt c st))))))"

text \<open>
  Line 20 asks \<open>HasField("create_function_stmt")\<close> first, and \<open>HasField("create_procedure_stmt")\<close>
  only when the answer is no: for a statement of another kind the second question is where the
  library's own \<open>ValueError\<close> comes from if it does not declare the field, before the program's
  message of line 21 is built.
\<close>

text \<open>
  The statement \<open>get_create_function_stmt\<close> returns is a reference into the tree: what the
  code then writes to it is written to the tree. \<open>update_stmt\<close> is that write.
\<close>

definition update_stmt ::
    "('n create_function_stmt \<Rightarrow> 'n create_function_stmt) \<Rightarrow> 'n parse_tree \<Rightarrow> 'n parse_tree" where
  "update_stmt f parse_tree1 =
     (case stmts parse_tree1 of
        CreateFunctionStmt s # rest \<Rightarrow> parse_tree1\<lparr>stmts := CreateFunctionStmt (f s) # rest\<rparr>
      | CreateProcedureStmt s # rest \<Rightarrow> parse_tree1\<lparr>stmts := CreateProcedureStmt (f s) # rest\<rparr>
      | _ \<Rightarrow> parse_tree1)"

definition parsed :: "'n codec \<Rightarrow> ustring \<Rightarrow> py_exception + 'n parse_tree" where
  "parsed c sql = (case query_to_pb c sql of Inl m \<Rightarrow> Inl (PgQueryExc m) | Inr t \<Rightarrow> Inr t)"

definition serialized :: "'n codec \<Rightarrow> 'n parse_tree \<Rightarrow> py_exception + ustring" where
  "serialized c t = (case pb_to_query c t of Inl m \<Rightarrow> Inl (PgQueryExc m) | Inr s \<Rightarrow> Inr s)"

text \<open>
  \<open>_get_func_signature_returns_and_type\<close>. The logging at the head of this and the next two
  functions has no part in the result and is left out.
\<close>

definition get_func_signature_returns_and_type ::
    "'n codec \<Rightarrow> ustring \<Rightarrow> py_exception + (ustring \<times> bool)" where
  "get_func_signature_returns_and_type c func_sql =
     (case parsed c func_sql of
        Inl e \<Rightarrow> Inl e
      | Inr parse_tree1 \<Rightarrow>
          (case get_create_function_stmt c parse_tree1 of
             Inl e \<Rightarrow> Inl e
           | Inr create_func_stmt \<Rightarrow>
               let is_proc = is_procedure create_func_stmt;
                   parse_tree2 = update_stmt (\<lambda>s. s\<lparr>
                       is_procedure := False, replace := False, options := [], sql_body := None,
                       funcname := (if length (funcname s) > 1 then tl (funcname s) else funcname s)\<rparr>)
                     parse_tree1
               in (case serialized c parse_tree2 of
                     Inl e \<Rightarrow> Inl e
                   | Inr stmt_str \<Rightarrow>
                       if \<not> prefix (str ''create function'') (py_lower stmt_str)
                       then Inl (ValueError (str ''Expected create function got '' @ stmt_str))
                       else Inr (py_strip (drop (length (str ''create function'')) stmt_str), is_proc))))"

text \<open>\<open>_get_func_schema\<close>, with its default \<open>public\<close>; \<open>schema_name[1:-1]\<close> drops both ends.\<close>

definition get_func_schema :: "'n codec \<Rightarrow> ustring \<Rightarrow> py_exception + ustring" where
  "get_func_schema c func_sql =
     (case parsed c func_sql of
        Inl e \<Rightarrow> Inl e
      | Inr parse_tree1 \<Rightarrow>
          (case get_create_function_stmt c parse_tree1 of
             Inl e \<Rightarrow> Inl e
           | Inr create_func_stmt \<Rightarrow>
               (case funcname create_func_stmt of
                  n0 # _ # _ \<Rightarrow>
                    let schema_name = sval c n0
                    in if prefix [dquote] schema_name \<or> prefix [39] schema_name
                       then Inr (butlast (tl schema_name))
                       else Inr schema_name
                | _ \<Rightarrow> Inr (str ''public''))))"

definition dummy_func_sql :: ustring where
  "dummy_func_sql = str ''CREATE FUNCTION foo.bar() RETURNS void AS $$ BEGIN $$ LANGUAGE plpgsql;''"

text \<open>
  The first part of \<open>_get_func_body\<close>: the statement with the name, parameters and return
  type of the dummy spliced in, serialized.
\<close>

definition spliced_func_str :: "'n codec \<Rightarrow> ustring \<Rightarrow> py_exception + ustring" where
  "spliced_func_str c func_sql =
     (case parsed c dummy_func_sql of
        Inl e \<Rightarrow> Inl e
      | Inr parse_tree_dummy \<Rightarrow>
          (case get_create_function_stmt c parse_tree_dummy of
             Inl e \<Rightarrow> Inl e
           | Inr dummy_create_func_stmt \<Rightarrow>
               (case parsed c func_sql of
                  Inl e \<Rightarrow> Inl e
                | Inr parse_tree1 \<Rightarrow>
                    (case get_create_function_stmt c parse_tree1 of
                       Inl e \<Rightarrow> Inl e
                     | Inr create_func_stmt \<Rightarrow>
                         serialized c (update_stmt (\<lambda>s. s\<lparr>
                             is_procedure := False, replace := False,
                             funcname := funcname dummy_create_func_stmt,
                             parameters := parameters dummy_create_func_stmt,
                             return_type := return_type dummy_create_func_stmt\<rparr>)
                           parse_tree1)))))"

text \<open>The second part: the split at \<open>RETURNS void\<close> and the two checks.\<close>

definition body_of_func_str :: "ustring \<Rightarrow> ustring \<Rightarrow> py_exception + ustring" where
  "body_of_func_str func_sql func_str =
     (let func_split = py_split (str ''RETURNS void'') func_str
      in if length func_split \<noteq> 2
         then Inl (ValueError (str ''Expected 1 instance of RETURNS void in statement: '' @ func_sql))
         else if py_lower (py_strip (func_split ! 0)) \<noteq> str ''create function foo.bar()''
         then Inl (ValueError (str ''Expected CREATE FUNCTION foo.bar() got '' @ func_split ! 0))
         else Inr (func_split ! 1))"

definition get_func_body :: "'n codec \<Rightarrow> ustring \<Rightarrow> py_exception + ustring" where
  "get_func_body c func_sql =
     (case spliced_func_str c func_sql of
        Inl e \<Rightarrow> Inl e
      | Inr func_str \<Rightarrow> body_of_func_str func_sql func_str)"

definition validate_split_function ::
    "'n codec \<Rightarrow> ustring \<Rightarrow> ustring \<Rightarrow> ustring \<Rightarrow> ustring \<Rightarrow> bool \<Rightarrow> py_exception + unit" where
  "validate_split_function c signature1 returns schema1 body is_proc =
     (let entity_kind = (if is_proc then str ''PROCEDURE'' else str ''FUNCTION'');
          reconstructed_sql = str ''CREATE '' @ entity_kind @ str '' '' @ schema1 @ str ''.'' @ signature1
                                @ str '' '' @ returns @ str '' '' @ body
      in case parsed c reconstructed_sql of Inl e \<Rightarrow> Inl e | Inr _ \<Rightarrow> Inr ())"

record split_result =
  split_signature :: ustring
  split_returns :: ustring
  split_schema :: ustring
  split_body :: ustring
  split_is_proc :: bool

text \<open>The block under \<open>try\<close> in \<open>split_function\<close>.\<close>

definition split_function_try :: "'n codec \<Rightarrow> ustring \<Rightarrow> py_exception + split_result" where
  "split_function_try c sql =
     (case get_func_signature_returns_and_type c sql of
        Inl e \<Rightarrow> Inl e
      | Inr (signature_and_return, is_proc) \<Rightarrow>
          (case (case parse (str ''{signature}returns{ret_type}'') signature_and_return of
                   None \<Rightarrow> Inr (signature_and_return, [])
                 | Some result \<Rightarrow>
                     (case result_get result (str ''signature'') of
                        Inl e \<Rightarrow> Inl e
                      | Inr sg \<Rightarrow>
                          (case result_get result (str ''ret_type'') of
                             Inl e \<Rightarrow> Inl e
                           | Inr rt \<Rightarrow> Inr (py_strip sg, str ''returns '' @ py_strip rt)))) of
             Inl e \<Rightarrow> Inl e
           | Inr (raw_signature, returns) \<Rightarrow>
               (case get_func_schema c sql of
                  Inl e \<Rightarrow> Inl e
                | Inr schema1 \<Rightarrow>
                    (case get_func_body c sql of
                       Inl e \<Rightarrow> Inl e
                     | Inr body \<Rightarrow>
                         let signature1 =
                               (if prefix [dquote] raw_signature
                                then py_join [] (py_split_max [dquote] 2 raw_signature)
                                else raw_signature)
                         in (case validate_split_function c signature1 returns schema1 body is_proc of
                               Inl e \<Rightarrow> Inl e
                             | Inr _ \<Rightarrow>
                                 Inr \<lparr>split_signature = signature1, split_returns = returns,
                                      split_schema = schema1, split_body = body,
                                      split_is_proc = is_proc\<rparr>)))))"

text \<open>\<open>split_function\<close>: of what the block raises, only \<open>PgQueryExc\<close> becomes \<open>SQLParseFailure\<close>.\<close>

definition split_function :: "'n codec \<Rightarrow> ustring \<Rightarrow> py_exception + split_result" where
  "split_function c sql =
     (case split_function_try c sql of
        Inl (PgQueryExc m) \<Rightarrow> Inl (SQLParseFailure m)
      | r \<Rightarrow> r)"

text \<open>
  The number of places at which \<open>sub\<close> occurs in a text.
\<close>

primrec count_occurrences :: "'a list \<Rightarrow> 'a list \<Rightarrow> nat" where
  "count_occurrences sub [] = 0"
| "count_occurrences sub (c # cs) = (if prefix sub (c # cs) then 1 else 0) + count_occurrences sub cs"

text \<open>
  A small codec to run the model on: it parses four texts, each to the tree written here,
  and serializes a create-function statement in the usual order of its parts.
\<close>

definition example_cfs :: "ustring create_function_stmt" where
  "example_cfs =
     \<lparr>is_procedure = False, replace = False, funcname = [str ''s'', str ''add''],
      parameters = [str ''a int'', str ''b int''], return_type = Some (str ''int''),
      options = [str ''AS $$ select a+b $$'', str ''LANGUAGE sql''], sql_body = None\<rparr>"

definition example_dummy_cfs :: "ustring create_function_stmt" where
  "example_dummy_cfs =
     \<lparr>is_procedure = False, replace = False, funcname = [str ''foo'', str ''bar''],
      parameters = [], return_type = Some (str ''void''),
      options = [str ''AS $$ BEGIN $$'', str ''LANGUAGE plpgsql''], sql_body = None\<rparr>"

definition example_serialize_cfs :: "ustring create_function_stmt \<Rightarrow> ustring" where
  "example_serialize_cfs s =
     str ''CREATE '' @ (if replace s then str ''OR REPLACE '' else [])
     @ (if is_procedure s then str ''PROCEDURE '' else str ''FUNCTION '')
     @ py_join (str ''.'') (funcname s) @ str ''('' @ py_join (str '', '') (parameters s) @ str '')''
     @ (case return_type s of None \<Rightarrow> [] | Some t \<Rightarrow> str '' RETURNS '' @ t)
     @ concat (map (\<lambda>opt. str '' '' @ opt) (options s))"

definition example_serialize :: "ustring stmt \<Rightarrow> ustring" where
  "example_serialize st =
     (case st of
        OtherStmt t \<Rightarrow> t
      | CreateProcedureStmt s \<Rightarrow> example_serialize_cfs s
      | CreateFunctionStmt s \<Rightarrow> example_serialize_cfs s)"

definition example_codec :: "ustring codec" where
  "example_codec =
     \<lparr>query_to_pb = (\<lambda>sql.
        if sql = dummy_func_sql then Inr \<lparr>stmts = [CreateFunctionStmt example_dummy_cfs]\<rparr>
        else if sql = str ''CREATE FUNCTION s.add(a int, b int) RETURNS int AS $$ select a+b $$ LANGUAGE sql;''
        then Inr \<lparr>stmts = [CreateFunctionStmt example_cfs]\<rparr>
        else if sql = str ''select 1; select 2''
        then Inr \<lparr>stmts = [OtherStmt (str ''SELECT 1''), OtherStmt (str ''SELECT 2'')]\<rparr>
        else if sql = str ''select 1''
        then Inr \<lparr>stmts = [OtherStmt (str ''SELECT 1'')]\<rparr>
        else Inl (str ''syntax error'')),
      pb_to_query = (\<lambda>t. Inr (py_join (str ''; '') (map example_serialize (stmts t)))),
      sval = (\<lambda>n. n),
      show_stmt = example_serialize,
      has_field_error = (\<lambda>name.
        if name = str ''create_procedure_stmt''
        then Some (str ''Protocol message Node has no create_procedure_stmt field.'')
        else None)\<rparr>"

section \<open>Escaping colons (statement.py)\<close>

text \<open>
  \<open>str(uuid4())\<close> is random: the sentinels are arguments of the model. What is known of such
  a string is its form, 32 lowercase hexadecimal digits in groups of 8, 4, 4, 4 and 12 with a
  hyphen between the groups.
\<close>

datatype char_class = Hyphen | Hex | Other

definition char_class :: "nat \<Rightarrow> char_class" where
  "char_class c =
     (if c = 45 then Hyphen
      else if (48 \<le> c \<and> c \<le> 57) \<or> (97 \<le> c \<and> c \<le> 102) then Hex
      else Other)"

definition uuid_pattern :: "char_class list" where
  "uuid_pattern =
     [Hex, Hex, Hex, Hex, Hex, Hex, Hex, Hex, Hyphen,
      Hex, Hex, Hex, Hex, Hyphen,
      Hex, Hex, Hex, Hex, Hyphen,
      Hex, Hex, Hex, Hex, Hyphen,
      Hex, Hex, Hex, Hex, Hex, Hex, Hex, Hex, Hex, Hex, Hex, Hex]"

definition is_uuid :: "ustring \<Rightarrow> bool" where
  "is_uuid h \<longleftrightarrow> map char_class h = uuid_pattern"

text \<open>The sixteen characters of a sentinel from its first hyphen to its last.\<close>

definition uuid_middle :: "ustring \<Rightarrow> ustring" where
  "uuid_middle h = take 16 (drop 8 h)"

definition escape_colon_for_sql :: "ustring \<Rightarrow> ustring \<Rightarrow> ustring" where
  "escape_colon_for_sql holder sql =
     (let sql1 = py_replace (str ''::'') holder sql;
          sql2 = py_replace (str '':'') (backslash # str '':'') sql1;
          sql3 = py_replace holder (str ''::'') sql2
      in sql3)"

definition escape_colon_for_plpgsql :: "ustring \<Rightarrow> ustring \<Rightarrow> ustring \<Rightarrow> ustring \<Rightarrow> ustring" where
  "escape_colon_for_plpgsql holder1 holder2 holder3 sql =
     (let sql1 = py_replace (str ''::'') holder1 sql;
          sql2 = py_replace (str '':='') holder2 sql1;
          sql3 = py_replace (backslash # str '':'') holder3 sql2;
          sql4 = py_replace (str '':'') (backslash # str '':'') sql3;
          sql5 = py_replace holder3 (backslash # str '':'') sql4;
          sql6 = py_replace holder2 (str '':='') sql5;
          sql7 = py_replace holder1 (str ''::'') sql6
      in sql7)"

section \<open>Sentinels as symbols\<close>

text \<open>
  To reason about the two functions, a text in which sentinels have been put is seen as a list
  of symbols, a symbol being a character of the text or a sentinel, named by its number. The
  text itself is recovered by writing each sentinel out.
\<close>

datatype sym = Ch nat | Holder nat

primrec render :: "(nat \<Rightarrow> ustring) \<Rightarrow> sym list \<Rightarrow> ustring" where
  "render hs [] = []"
| "render hs (x # xs) = (case x of Ch c \<Rightarrow> [c] | Holder i \<Rightarrow> hs i) @ render hs xs"

abbreviation syms :: "string \<Rightarrow> sym list" where
  "syms s \<equiv> map Ch (str s)"

text \<open>The two functions on symbols: the same replacements, with \<open>Holder i\<close> for the sentinels.\<close>

definition escape_sql_syms :: "sym list \<Rightarrow> sym list" where
  "escape_sql_syms t =
     py_replace [Holder 1] (syms ''::'')
       (py_replace (syms '':'') [Ch backslash, Ch 58]
         (py_replace (syms ''::'') [Holder 1] t))"

definition tokenize_syms :: "sym list \<Rightarrow> sym list" where
  "tokenize_syms t =
     py_replace [Ch backslash, Ch 58] [Holder 3]
       (py_replace (syms '':='') [Holder 2]
         (py_replace (syms ''::'') [Holder 1] t))"

definition restore_syms :: "sym list \<Rightarrow> sym list" where
  "restore_syms t =
     py_replace [Holder 1] (syms ''::'')
       (py_replace [Holder 2] (syms '':='')
         (py_replace [Holder 3] [Ch backslash, Ch 58] t))"

definition escape_plpgsql_syms :: "sym list \<Rightarrow> sym list" where
  "escape_plpgsql_syms t =
     restore_syms (py_replace (syms '':'') [Ch backslash, Ch 58] (tokenize_syms t))"

text \<open>
  A symbol that cannot be part of a sentinel: a sentinel's number, or a character that is
  neither a hexadecimal digit nor a hyphen.
\<close>

definition blocker :: "sym \<Rightarrow> bool" where
  "blocker x \<longleftrightarrow> (case x of Holder i \<Rightarrow> True | Ch c \<Rightarrow> char_class c = Other)"

text \<open>The pairs of neighbours of a list.\<close>

definition adjacent_pairs :: "'a list \<Rightarrow> ('a \<times> 'a) set" where
  "adjacent_pairs t = set (zip t (tl t))"

text \<open>
  The neighbours that a list of symbols produced by \<open>tokenize_syms\<close> never has: a colon before a
  colon, an equals sign or the sentinel of \<open>::\<close> or \<open>:=\<close>; the sentinel of an escaped colon
  before any of these; a backslash before a colon.
\<close>

definition bad_pair :: "sym \<Rightarrow> sym \<Rightarrow> bool" where
  "bad_pair x y \<longleftrightarrow>
     ((x = Ch 58 \<or> x = Holder 3) \<and> (y = Ch 58 \<or> y = Ch 61 \<or> y = Holder 1 \<or> y = Holder 2)) \<or>
     (x = Ch backslash \<and> y = Ch 58)"

text \<open>Every occurrence of one symbol written out as a list.\<close>

definition expand :: "'a \<Rightarrow> 'a list \<Rightarrow> 'a list \<Rightarrow> 'a list" where
  "expand x new t = concat (map (\<lambda>a. if a = x then new else [a]) t)"

text \<open>A list of symbols with no sentinel in it.\<close>

definition plain :: "sym list \<Rightarrow> bool" where
  "plain t \<longleftrightarrow> (\<forall>x\<in>set t. \<exists>c. x = Ch c)"

text \<open>The three sentinels of \<open>escape_colon_for_plpgsql\<close> by their numbers.\<close>

definition holders :: "ustring \<Rightarrow> ustring \<Rightarrow> ustring \<Rightarrow> nat \<Rightarrow> ustring" where
  "holders h1 h2 h3 i = (if i = 1 then h1 else if i = 2 then h2 else h3)"

text \<open>
  Six strings of the form of \<open>str(uuid4())\<close>, for two runs of \<open>escape_colon_for_plpgsql\<close>, and
  an input that has the first 28 characters of the first of them after an escaped colon and
  before a cast.
\<close>

definition ex_h1 :: ustring where
  "ex_h1 = str ''deadbeef-aaaa-4aaa-8aaa-aaaadeadbeef''"

definition ex_h2 :: ustring where
  "ex_h2 = str ''11111111-2222-4333-8444-555555555555''"

definition ex_h3 :: ustring where
  "ex_h3 = str ''66666666-7777-4888-9999-000000000000''"

definition ex_k1 :: ustring where
  "ex_k1 = str ''abcdef01-2345-4678-89ab-cdef01234567''"

definition ex_k2 :: ustring where
  "ex_k2 = str ''0f0f0f0f-1111-4222-a333-444444444444''"

definition ex_k3 :: ustring where
  "ex_k3 = str ''99999999-8888-4777-b666-555555555555''"

definition ex_overlap :: ustring where
  "ex_overlap = [backslash] @ str '':deadbeef-aaaa-4aaa-8aaa-aaaa::''"

section \<open>Escaping colons in one pass\<close>

text \<open>
  What the two functions are meant to do, written after the words of the specification and
  not after the code: the text is read once from left to right. For SQL, a pair of colons is
  a cast and is kept, and any other colon gets a backslash before it.
\<close>

fun escape_colon_for_sql_spec :: "ustring \<Rightarrow> ustring" where
  "escape_colon_for_sql_spec [] = []"
| "escape_colon_for_sql_spec [c] = (if c = 58 then [92, 58] else [c])"
| "escape_colon_for_sql_spec (c # d # r) =
     (if c = 58 \<and> d = 58 then [58, 58] @ escape_colon_for_sql_spec r
      else if c = 58 then [92, 58] @ escape_colon_for_sql_spec (d # r)
      else c # escape_colon_for_sql_spec (d # r))"

text \<open>
  For PL/pgSQL, a pair of colons and a colon before an equals sign are kept, a colon that
  already has a backslash before it is kept, and any other colon gets a backslash. A colon
  after a backslash that begins a pair or an assignment belongs to that pair or assignment.
\<close>

definition starts_pair :: "ustring \<Rightarrow> bool" where
  "starts_pair r = (case r of [] \<Rightarrow> False | e # _ \<Rightarrow> e = 58 \<or> e = 61)"

fun escape_colon_for_plpgsql_spec :: "ustring \<Rightarrow> ustring" where
  "escape_colon_for_plpgsql_spec [] = []"
| "escape_colon_for_plpgsql_spec [c] = (if c = 58 then [92, 58] else [c])"
| "escape_colon_for_plpgsql_spec (c # d # r) =
     (if c = 58 \<and> d = 58 then [58, 58] @ escape_colon_for_plpgsql_spec r
      else if c = 58 \<and> d = 61 then [58, 61] @ escape_colon_for_plpgsql_spec r
      else if c = 58 then [92, 58] @ escape_colon_for_plpgsql_spec (d # r)
      else if c = 92 \<and> d = 58 \<and> \<not> starts_pair r then [92, 58] @ escape_colon_for_plpgsql_spec r
      else c # escape_colon_for_plpgsql_spec (d # r))"

text \<open>
  The same reading, giving symbols: \<open>Holder 1\<close> for a pair of colons, \<open>Holder 2\<close> for a colon
  and an equals sign, \<open>Holder 3\<close> for a colon with its backslash.
\<close>

fun scan_syms :: "ustring \<Rightarrow> sym list" where
  "scan_syms [] = []"
| "scan_syms [c] = [Ch c]"
| "scan_syms (c # d # r) =
     (if c = 58 \<and> d = 58 then Holder 1 # scan_syms r
      else if c = 58 \<and> d = 61 then Holder 2 # scan_syms r
      else if c = 58 then Ch 58 # scan_syms (d # r)
      else if c = 92 \<and> d = 58 \<and> \<not> starts_pair r then Holder 3 # scan_syms r
      else Ch c # scan_syms (d # r))"

section \<open>Properties of the Python string operations\<close>

lemma rstripP_length: "length (rev (dropWhile P (rev s))) \<le> length s"
  using length_dropWhile_le [of P "rev s"] by simp

lemma rstripP_id: "rev (dropWhile P (rev s)) = s \<longleftrightarrow> (s = [] \<or> \<not> P (last s))"
proof (cases s rule: rev_cases)
  case Nil
  then show ?thesis by simp
next
  case (snoc ys y)
  show ?thesis
  proof (cases "P y")
    case True
    have le: "length (rev (dropWhile P (rev ys))) \<le> length ys"
      by (rule rstripP_length)
    have "rev (dropWhile P (rev ys)) \<noteq> ys @ [y]"
    proof
      assume "rev (dropWhile P (rev ys)) = ys @ [y]"
      then have "length (rev (dropWhile P (rev ys))) = length (ys @ [y])"
        by (rule arg_cong)
      with le show False by simp
    qed
    with True snoc show ?thesis by simp
  next
    case False
    with snoc show ?thesis by simp
  qed
qed

lemma rstripP_last: "rev (dropWhile P (rev s)) \<noteq> [] \<Longrightarrow> \<not> P (last (rev (dropWhile P (rev s))))"
  using hd_dropWhile [of P "rev s"] by (simp add: last_rev)

lemma py_strip_length: "length (py_strip s) \<le> length s"
  unfolding py_strip_def py_lstrip_def py_rstrip_def
  using length_dropWhile_le [of isspace "rev (dropWhile isspace (rev s))"] rstripP_length [of isspace s]
  by simp

lemma dropWhile_last: "dropWhile P xs \<noteq> [] \<Longrightarrow> last (dropWhile P xs) = last xs"
  by (induction xs) (auto split: if_splits)

lemma py_strip_last: "py_strip s \<noteq> [] \<Longrightarrow> \<not> isspace (last (py_strip s))"
proof -
  assume ne: "py_strip s \<noteq> []"
  let ?r = "rev (dropWhile isspace (rev s))"
  have ps: "py_strip s = dropWhile isspace ?r"
    by (simp add: py_strip_def py_lstrip_def py_rstrip_def)
  from ps ne have l: "last (py_strip s) = last ?r"
    using dropWhile_last [of isspace ?r] by simp
  have rne: "?r \<noteq> []"
  proof
    assume e: "?r = []"
    have "dropWhile isspace ?r = dropWhile isspace []"
      by (simp only: e)
    with ps have "py_strip s = []" by simp
    with ne show False by simp
  qed
  from rstripP_last [OF rne] l show ?thesis by simp
qed

lemma py_strip_hd: "py_strip s \<noteq> [] \<Longrightarrow> \<not> isspace (hd (py_strip s))"
  unfolding py_strip_def py_lstrip_def by (rule hd_dropWhile)

lemma py_strip_fix: "py_strip s = s \<longleftrightarrow> (s = [] \<or> (\<not> isspace (hd s) \<and> \<not> isspace (last s)))"
proof
  assume "py_strip s = s"
  then show "s = [] \<or> (\<not> isspace (hd s) \<and> \<not> isspace (last s))"
    using py_strip_hd [of s] py_strip_last [of s] by auto
next
  assume a: "s = [] \<or> (\<not> isspace (hd s) \<and> \<not> isspace (last s))"
  show "py_strip s = s"
  proof (cases "s = []")
    case True
    then show ?thesis by (simp add: py_strip_def py_lstrip_def py_rstrip_def)
  next
    case False
    with a have h: "\<not> isspace (hd s)" and l: "\<not> isspace (last s)" by auto
    from l have "rev (dropWhile isspace (rev s)) = s"
      by (simp add: rstripP_id)
    moreover from h False have "dropWhile isspace s = s"
      by (cases s) auto
    ultimately show ?thesis
      by (simp add: py_strip_def py_lstrip_def py_rstrip_def)
  qed
qed

lemma py_strip_idem: "py_strip (py_strip s) = py_strip s"
  using py_strip_fix [of "py_strip s"] py_strip_hd [of s] py_strip_last [of s] by blast

lemma sts_strip: "py_strip (strip_terminating_semicolon s) = strip_terminating_semicolon s"
  by (simp add: strip_terminating_semicolon_def py_strip_idem)

lemma find_acc_single_None: "find_acc [c] acc s = None \<longleftrightarrow> c \<notin> set s"
  by (induction s arbitrary: acc) auto

lemma py_in_single: "py_in [c] s \<longleftrightarrow> c \<in> set s"
  by (simp add: py_in_def find_acc_single_None)

lemma py_join_Nil: "py_join [] xs = concat xs"
  by (induction "[] :: 'a list" xs rule: py_join.induct) auto

lemma split_acc_single_concat:
  "concat (split_acc [q] None acc s) = rev acc @ filter (\<lambda>c. c \<noteq> q) s"
  by (induction s arbitrary: acc) auto

lemma coerce_to_unquoted_filter: "coerce_to_unquoted text = filter (\<lambda>c. c \<noteq> dquote) text"
  by (simp add: coerce_to_unquoted_def py_join_Nil py_split_def split_acc_single_concat)

lemma set_py_strip: "set (py_strip s) \<subseteq> set s"
proof -
  have "set (py_strip s) \<subseteq> set (rev (dropWhile isspace (rev s)))"
    unfolding py_strip_def py_lstrip_def py_rstrip_def by (rule set_dropWhileD [THEN subsetI])
  also have "\<dots> \<subseteq> set s"
    using set_dropWhileD [of _ isspace "rev s"] by auto
  finally show ?thesis .
qed

lemma strip_double_quotes_no_quote:
  assumes "dquote \<notin> set s"
  shows "strip_double_quotes s = py_strip s"
proof -
  let ?t = "py_strip s"
  from assms set_py_strip [of s] have nq: "dquote \<notin> set ?t" by auto
  have "?t = [] \<or> last ?t \<noteq> dquote"
  proof (cases "?t = []")
    case False
    then have "last ?t \<in> set ?t" by (rule last_in_set)
    with nq show ?thesis by auto
  qed simp
  then have r: "py_rstrip_chars [dquote] ?t = ?t"
    unfolding py_rstrip_chars_def by (simp add: rstripP_id)
  from nq have l: "py_lstrip_chars [dquote] ?t = ?t"
    unfolding py_lstrip_chars_def by (cases ?t) auto
  show ?thesis
    by (simp add: strip_double_quotes_def Let_def r l py_strip_idem)
qed

section \<open>Terminating semicolons\<close>

text \<open>
  C6 (as amended). \<open>strip_terminating_semicolon\<close> trims whitespace at both ends, removes
  every trailing semicolon and trims again. Applying it twice gives the result of applying it
  once exactly when the first result does not end in a semicolon.
\<close>

theorem strip_terminating_semicolon_twice:
  "strip_terminating_semicolon (strip_terminating_semicolon s) = strip_terminating_semicolon s
     \<longleftrightarrow> \<not> suffix (str '';'') (strip_terminating_semicolon s)"
proof -
  let ?t = "strip_terminating_semicolon s"
  have ft: "strip_terminating_semicolon ?t = py_strip (py_rstrip_chars (str '';'') ?t)"
    using sts_strip [of s] by (simp add: strip_terminating_semicolon_def [of ?t])
  show ?thesis
  proof (cases "suffix (str '';'') ?t")
    case True
    then obtain u where u: "?t = u @ [59]"
      by (auto simp: suffix_def)
    have "length (py_rstrip_chars (str '';'') ?t) \<le> length u"
      unfolding u py_rstrip_chars_def using rstripP_length [of "\<lambda>c. c = 59" u] by simp
    with py_strip_length [of "py_rstrip_chars (str '';'') ?t"]
    have "length (strip_terminating_semicolon ?t) \<le> length u"
      unfolding ft by simp
    then have "strip_terminating_semicolon ?t \<noteq> ?t"
      using arg_cong [of "strip_terminating_semicolon ?t" ?t length] u by auto
    with True show ?thesis by simp
  next
    case False
    then have "?t = [] \<or> last ?t \<noteq> 59"
      by (cases ?t rule: rev_cases) (auto simp: suffix_def)
    then have "py_rstrip_chars (str '';'') ?t = ?t"
      unfolding py_rstrip_chars_def by (simp add: rstripP_id)
    with ft sts_strip [of s] False show ?thesis by simp
  qed
qed

theorem strip_terminating_semicolon_twice_witness:
  "\<not> suffix (str '';'') (strip_terminating_semicolon (str ''select 1 ; ''))
   \<and> strip_terminating_semicolon (strip_terminating_semicolon (str ''select 1 ; ''))
       = strip_terminating_semicolon (str ''select 1 ; '')"
  using strip_terminating_semicolon_twice [of "str ''select 1 ; ''"]
  by (simp add: strip_terminating_semicolon_def py_strip_def py_lstrip_def py_rstrip_def
      py_rstrip_chars_def isspace_def suffix_def)

text \<open>
  Whitespace between two trailing semicolons: the first application leaves \<open>a;\<close>, the second
  removes that semicolon too.
\<close>

theorem strip_terminating_semicolon_not_idempotent:
  "strip_terminating_semicolon (str ''a; ;'') = str ''a;''
   \<and> strip_terminating_semicolon (strip_terminating_semicolon (str ''a; ;'')) = str ''a''
   \<and> strip_terminating_semicolon (strip_terminating_semicolon (str ''a; ;''))
       \<noteq> strip_terminating_semicolon (str ''a; ;'')"
  by (simp add: strip_terminating_semicolon_def py_strip_def py_lstrip_def py_rstrip_def
      py_rstrip_chars_def isspace_def)

section \<open>Quote coercion\<close>

text \<open>
  C7 (as amended). For a string \<open>x\<close> with no dot and no double quote,
  \<open>coerce_to_unquoted (coerce_to_quoted x)\<close> is \<open>x\<close> with the whitespace at its ends removed;
  it is \<open>x\<close> itself exactly when \<open>x\<close> neither starts nor ends with whitespace.
\<close>

theorem coerce_quote_unquote:
  assumes "\<not> py_in (str ''.'') x" and "\<not> py_in [dquote] x"
  shows "coerce_to_unquoted (coerce_to_quoted x) = py_strip x
         \<and> (coerce_to_unquoted (coerce_to_quoted x) = x
              \<longleftrightarrow> x = [] \<or> (\<not> isspace (hd x) \<and> \<not> isspace (last x)))"
proof -
  from assms(2) have nq: "dquote \<notin> set x"
    by (simp add: py_in_single)
  from assms(1) have q: "coerce_to_quoted x = [dquote] @ py_strip x @ [dquote]"
    by (simp add: coerce_to_quoted_def strip_double_quotes_no_quote [OF nq])
  from nq set_py_strip [of x] have "dquote \<notin> set (py_strip x)" by auto
  then have "filter (\<lambda>c. c \<noteq> dquote) (py_strip x) = py_strip x"
    by (auto simp: filter_id_conv)
  then have 1: "coerce_to_unquoted (coerce_to_quoted x) = py_strip x"
    by (simp add: q coerce_to_unquoted_filter)
  show ?thesis
    unfolding 1 using py_strip_fix [of x] by simp
qed

theorem coerce_quote_unquote_witness:
  "\<not> py_in (str ''.'') (str ''public'') \<and> \<not> py_in [dquote] (str ''public'')
   \<and> coerce_to_unquoted (coerce_to_quoted (str ''public'')) = str ''public''"
  using coerce_quote_unquote [of "str ''public''"]
  by (simp add: py_in_def dquote_def isspace_def py_strip_def py_lstrip_def py_rstrip_def)

text \<open>An identifier with a leading blank has no dot and no quote, and comes back trimmed.\<close>

theorem coerce_quote_unquote_not_inverse:
  "\<not> py_in (str ''.'') (str '' a'') \<and> \<not> py_in [dquote] (str '' a'')
   \<and> coerce_to_unquoted (coerce_to_quoted (str '' a'')) = str ''a''
   \<and> coerce_to_unquoted (coerce_to_quoted (str '' a'')) \<noteq> str '' a''"
  by (simp add: coerce_to_unquoted_def coerce_to_quoted_def py_in_def py_split_def
      strip_double_quotes_def py_strip_def py_lstrip_def py_rstrip_def py_rstrip_chars_def
      py_lstrip_chars_def isspace_def dquote_def)

section \<open>Materialized views: construction and parsing\<close>

lemmas view_eval = from_sql_def templates_def parse_def compile_template_def field_item_def
  ascii_alpha_def ascii_word_def ci_eq_def ascii_lower_def isspace_def result_of_def field_names_def
  from_match_def result_contains_def result_get_def init_def py_split_def py_strip_def py_lstrip_def
  py_rstrip_def py_rstrip_chars_def strip_terminating_semicolon_def normalize_whitespace_def
  py_split_ws_def coerce_to_unquoted_def dquote_def Let_def

lemma coerce_to_unquoted_no_quote: "\<not> py_in [dquote] (coerce_to_unquoted t)"
  by (simp add: py_in_single coerce_to_unquoted_filter)

lemma from_match_init:
  "from_match nis r = Inr v \<Longrightarrow> \<exists>sg df sc wd. v = init nis sg df sc wd"
  unfolding from_match_def Let_def
  by (auto split: sum.splits list.splits)

lemma try_templates_init:
  "try_templates nis ts sql = Inr v \<Longrightarrow> \<exists>sg df sc wd. v = init nis sg df sc wd"
  by (induction ts) (auto split: option.splits dest: from_match_init)

lemma try_templates_none:
  "\<forall>t\<in>set ts. parse t sql = None \<Longrightarrow>
   try_templates nis ts sql =
     Inl (SQLParseFailure (str ''Failed to parse SQL into PGView '' @ [dquote, dquote, dquote] @ sql
            @ [dquote, dquote, dquote]))"
  by (induction ts) auto

text \<open>
  C3 (as amended). Whichever way a \<open>PGMaterializedView\<close> is made, its stored schema and
  signature are \<open>coerce_to_unquoted (normalize_whitespace argument)\<close> and contain no double
  quote, and \<open>include_schema_prefix\<close> says whether the schema argument, as passed (or
  \<open>public\<close> when \<open>NEVER_INCLUDE_SCHEMA\<close> is set), differs from \<open>public\<close>: the comparison is
  made before the quotes are removed. A stored schema other than \<open>public\<close> therefore always
  has the flag set. Every object \<open>from_sql\<close> returns is made by the constructor.
\<close>

theorem init_stored_fields:
  "(\<forall>sg df sc wd.
      schema (init nis sg df sc wd)
        = coerce_to_unquoted (normalize_whitespace (if nis then str ''public'' else sc) (str '' ''))
      \<and> signature (init nis sg df sc wd) = coerce_to_unquoted (normalize_whitespace sg (str '' ''))
      \<and> \<not> py_in [dquote] (schema (init nis sg df sc wd))
      \<and> \<not> py_in [dquote] (signature (init nis sg df sc wd))
      \<and> include_schema_prefix (init nis sg df sc wd)
          = ((if nis then str ''public'' else sc) \<noteq> str ''public'')
      \<and> (schema (init nis sg df sc wd) \<noteq> str ''public''
           \<longrightarrow> include_schema_prefix (init nis sg df sc wd)))
   \<and> (\<forall>sql v. from_sql nis sql = Inr v \<longrightarrow> (\<exists>sg df sc wd. v = init nis sg df sc wd))"
proof (intro conjI allI impI)
  fix sg df sc wd
  show "schema (init nis sg df sc wd)
        = coerce_to_unquoted (normalize_whitespace (if nis then str ''public'' else sc) (str '' ''))"
    by (simp add: init_def Let_def)
  show "signature (init nis sg df sc wd) = coerce_to_unquoted (normalize_whitespace sg (str '' ''))"
    by (simp add: init_def Let_def)
  show "\<not> py_in [dquote] (schema (init nis sg df sc wd))"
    unfolding init_def Let_def by (simp only: pg_materialized_view.simps coerce_to_unquoted_no_quote not_False_eq_True)
  show "\<not> py_in [dquote] (signature (init nis sg df sc wd))"
    unfolding init_def Let_def by (simp only: pg_materialized_view.simps coerce_to_unquoted_no_quote not_False_eq_True)
  show "include_schema_prefix (init nis sg df sc wd)
          = ((if nis then str ''public'' else sc) \<noteq> str ''public'')"
    by (simp add: init_def Let_def)
  assume ne: "schema (init nis sg df sc wd) \<noteq> str ''public''"
  have pub: "coerce_to_unquoted (normalize_whitespace (str ''public'') (str '' '')) = str ''public''"
    by (simp add: view_eval)
  show "include_schema_prefix (init nis sg df sc wd)"
  proof (rule ccontr)
    assume "\<not> include_schema_prefix (init nis sg df sc wd)"
    then have "(if nis then str ''public'' else sc) = str ''public''"
      by (simp add: init_def Let_def)
    then have "schema (init nis sg df sc wd) = str ''public''"
      using pub by (simp add: init_def Let_def split: if_splits)
    with ne show False by simp
  qed
next
  fix sql v
  assume "from_sql nis sql = Inr v"
  then show "\<exists>sg df sc wd. v = init nis sg df sc wd"
    unfolding from_sql_def by (rule try_templates_init)
qed

theorem init_stored_fields_witness:
  "from_sql False (str ''create materialized view s.v as select 1'')
     = Inr (init False (str ''v'') (str ''select 1'') (str ''s'') True)
   \<and> schema (init False (str ''v'') (str ''select 1'') (str ''s'') True) \<noteq> str ''public''
   \<and> include_schema_prefix (init False (str ''v'') (str ''select 1'') (str ''s'') True)"
proof -
  have a: "from_sql False (str ''create materialized view s.v as select 1'')
     = Inr (init False (str ''v'') (str ''select 1'') (str ''s'') True)"
    by (simp add: view_eval)
  have b: "schema (init False (str ''v'') (str ''select 1'') (str ''s'') True) \<noteq> str ''public''"
    by (simp add: view_eval)
  from init_stored_fields [of False]
  have "schema (init False (str ''v'') (str ''select 1'') (str ''s'') True) \<noteq> str ''public''
          \<longrightarrow> include_schema_prefix (init False (str ''v'') (str ''select 1'') (str ''s'') True)"
    by blast
  with a b show ?thesis by blast
qed

text \<open>
  The quoted argument \<open>"public"\<close> is stored as \<open>public\<close> with the flag set; and a quote between
  two blanks leaves two adjacent blanks in the stored schema, which \<open>normalize_whitespace\<close>
  would merge.
\<close>

theorem init_quoted_public:
  "schema (init False (str ''v'') (str ''select 1'') ([dquote] @ str ''public'' @ [dquote]) True)
     = str ''public''
   \<and> include_schema_prefix
       (init False (str ''v'') (str ''select 1'') ([dquote] @ str ''public'' @ [dquote]) True)
   \<and> include_schema_prefix
       (init False (str ''v'') (str ''select 1'') ([dquote] @ str ''public'' @ [dquote]) True)
     \<noteq> (schema (init False (str ''v'') (str ''select 1'') ([dquote] @ str ''public'' @ [dquote]) True)
          \<noteq> str ''public'')
   \<and> schema (init False (str ''v'') (str ''select 1'') (str ''a '' @ [dquote] @ str '' b'') True)
     = str ''a  b''
   \<and> normalize_whitespace (str ''a  b'') (str '' '') = str ''a b''"
  by (simp add: view_eval)

text \<open>
  C4. On \<open>create materialized view s.v as select 1 with no data\<close> the first template, which
  ends in \<open>with data\<close>, does not match; the second, which has the \<open>no_data\<close> field, does; the
  third, the bare one, would match too, so the order decides. \<open>from_sql\<close> returns an object
  whose \<open>with_data\<close> is \<open>False\<close>.
\<close>

theorem from_sql_no_data_precedence:
  "parse (templates ! 0) (str ''create materialized view s.v as select 1 with no data'') = None
   \<and> (\<exists>r. parse (templates ! 1) (str ''create materialized view s.v as select 1 with no data'')
             = Some r \<and> result_contains (str ''no_data'') r)
   \<and> parse (templates ! 2) (str ''create materialized view s.v as select 1 with no data'') \<noteq> None
   \<and> from_sql nis (str ''create materialized view s.v as select 1 with no data'')
       = Inr \<lparr>schema = (if nis then str ''public'' else str ''s''), signature = str ''v'',
              definition_sql = str ''s'', with_data = False, include_schema_prefix = \<not> nis\<rparr>"
proof (intro conjI)
  show "parse (templates ! 0) (str ''create materialized view s.v as select 1 with no data'') = None"
    by (simp add: view_eval)
  show "\<exists>r. parse (templates ! 1) (str ''create materialized view s.v as select 1 with no data'')
             = Some r \<and> result_contains (str ''no_data'') r"
    by (simp add: view_eval)
  show "parse (templates ! 2) (str ''create materialized view s.v as select 1 with no data'') \<noteq> None"
    by (simp add: view_eval)
  show "from_sql nis (str ''create materialized view s.v as select 1 with no data'')
       = Inr \<lparr>schema = (if nis then str ''public'' else str ''s''), signature = str ''v'',
              definition_sql = str ''s'', with_data = False, include_schema_prefix = \<not> nis\<rparr>"
    by (simp add: view_eval)
qed

text \<open>
  C5. \<open>from_sql\<close> on \<open>CREATE MATERIALIZED VIEW public.mv AS SELECT 1 AS x;\<close> succeeds with
  schema \<open>public\<close>, signature \<open>mv\<close>, definition \<open>SELECT 1 AS x\<close> and \<open>with_data\<close> \<open>True\<close>.
\<close>

theorem from_sql_scenario_1:
  "from_sql nis (str ''CREATE MATERIALIZED VIEW public.mv AS SELECT 1 AS x;'')
     = Inr \<lparr>schema = str ''public'', signature = str ''mv'', definition_sql = str ''SELECT 1 AS x'',
            with_data = True, include_schema_prefix = False\<rparr>"
  by (simp add: view_eval)

text \<open>
  C9. When no template matches the text left after the terminating semicolon is stripped,
  \<open>from_sql\<close> returns no object: it fails with \<open>SQLParseFailure\<close>, whose message holds that
  text between triple quotes. \<open>from_sql\<close> is a function of the flag and the text, so the same
  input fails the same way each time.
\<close>

theorem from_sql_no_match:
  assumes "\<forall>t\<in>set templates. parse t (strip_terminating_semicolon sql) = None"
  shows "from_sql nis sql
           = Inl (SQLParseFailure (str ''Failed to parse SQL into PGView '' @ [dquote, dquote, dquote]
                    @ strip_terminating_semicolon sql @ [dquote, dquote, dquote]))"
  unfolding from_sql_def using assms by (rule try_templates_none)

lemma no_match_example:
  "list_all (\<lambda>t. parse t (strip_terminating_semicolon (str ''CREATE VIEW WITHOUT AS CLAUSE'')) = None) templates"
  by (simp add: view_eval)

lemma strip_example:
  "strip_terminating_semicolon (str ''CREATE VIEW WITHOUT AS CLAUSE'') = str ''CREATE VIEW WITHOUT AS CLAUSE''"
  by (simp add: view_eval)

theorem from_sql_no_match_witness:
  "list_all (\<lambda>t. parse t (strip_terminating_semicolon (str ''CREATE VIEW WITHOUT AS CLAUSE'')) = None)
     templates
   \<and> from_sql False (str ''CREATE VIEW WITHOUT AS CLAUSE'')
       = Inl (SQLParseFailure (str ''Failed to parse SQL into PGView '' @ [dquote, dquote, dquote]
                @ str ''CREATE VIEW WITHOUT AS CLAUSE'' @ [dquote, dquote, dquote]))"
proof -
  have h: "\<forall>t\<in>set templates.
             parse t (strip_terminating_semicolon (str ''CREATE VIEW WITHOUT AS CLAUSE'')) = None"
    using no_match_example by (simp only: list_all_iff)
  from from_sql_no_match [OF h, of False] strip_example no_match_example
  show ?thesis by (simp only:)
qed

section \<open>Splitting a routine: the body and the failures\<close>

lemma split_acc_nonempty: "split_acc (p # ps) k acc s \<noteq> []"
  by (induction "p # ps" k acc s rule: split_acc.induct) auto

lemma py_join_Cons: "ys \<noteq> [] \<Longrightarrow> py_join sep (x # ys) = x @ sep @ py_join sep ys"
  by (cases ys) auto

lemma split_acc_match:
  "split_acc (p # ps) None acc ((p # ps) @ rest) = rev acc # split_acc (p # ps) None [] rest"
  by simp

lemma split_acc_nomatch:
  "\<not> prefix (p # ps) (c # cs) \<Longrightarrow>
   split_acc (p # ps) None acc (c # cs) = split_acc (p # ps) None (c # acc) cs"
  by (simp del: Cons_prefix_Cons)

lemma count_occurrences_nomatch:
  "\<not> prefix sub (c # cs) \<Longrightarrow> count_occurrences sub (c # cs) = count_occurrences sub cs"
  by (simp del: Cons_prefix_Cons)

lemma py_join_split_acc:
  "py_join (p # ps) (split_acc (p # ps) None acc s) = rev acc @ s"
proof (induction "p # ps" "None :: nat option" acc s rule: split_acc.induct)
  case (2 acc)
  then show ?case by simp
next
  case (3 acc c cs)
  show ?case
  proof (cases "prefix (p # ps) (c # cs)")
    case True
    then obtain rest where r: "c # cs = (p # ps) @ rest"
      by (auto simp: prefix_def)
    then have d: "drop (length ps) cs = rest" by auto
    from True 3(1) have "py_join (p # ps) (split_acc (p # ps) None [] (drop (length ps) cs))
                           = rev [] @ drop (length ps) cs"
      by (simp del: Cons_prefix_Cons)
    then have ih: "py_join (p # ps) (split_acc (p # ps) None [] rest) = rest"
      using d by simp
    have "split_acc (p # ps) None acc (c # cs) = rev acc # split_acc (p # ps) None [] rest"
      unfolding r by (rule split_acc_match)
    then have "py_join (p # ps) (split_acc (p # ps) None acc (c # cs))
                 = rev acc @ (p # ps) @ rest"
      using ih by (simp only: py_join_Cons [OF split_acc_nonempty])
    then show ?thesis using r by simp
  next
    case False
    with 3(2) have "py_join (p # ps) (split_acc (p # ps) None (c # acc) cs) = rev (c # acc) @ cs"
      by (simp del: Cons_prefix_Cons)
    with split_acc_nomatch [OF False] show ?thesis by simp
  qed
qed

lemma count_occurrences_zero_split:
  "count_occurrences (p # ps) s = 0 \<Longrightarrow> split_acc (p # ps) None acc s = [rev acc @ s]"
  by (induction s arbitrary: acc) (auto split: if_splits)

lemma count_occurrences_ge:
  "1 \<le> count_occurrences (p # ps) (xs @ (p # ps) @ ys)"
  by (induction xs) auto

lemma marker_border_free:
  "count_occurrences (str ''RETURNS void'') (str ''RETURNS void'' @ post)
     = Suc (count_occurrences (str ''RETURNS void'') post)"
  by simp

lemma length_split_marker:
  "length (split_acc (str ''RETURNS void'') None acc s) = Suc (count_occurrences (str ''RETURNS void'') s)"
proof (induction s arbitrary: acc rule: length_induct)
  case (1 s)
  show ?case
  proof (cases s)
    case Nil
    then show ?thesis by simp
  next
    case (Cons c cs)
    show ?thesis
    proof (cases "prefix (str ''RETURNS void'') s")
      case True
      then obtain rest where r: "s = str ''RETURNS void'' @ rest"
        by (auto simp: prefix_def)
      have "length rest < length s" using r by simp
      with 1 have ih: "length (split_acc (str ''RETURNS void'') None [] rest)
                          = Suc (count_occurrences (str ''RETURNS void'') rest)"
        by blast
      have "split_acc (str ''RETURNS void'') None acc s
              = rev acc # split_acc (str ''RETURNS void'') None [] rest"
        unfolding r by simp
      moreover have "count_occurrences (str ''RETURNS void'') s
                       = Suc (count_occurrences (str ''RETURNS void'') rest)"
        unfolding r by (rule marker_border_free)
      ultimately show ?thesis using ih by simp
    next
      case False
      have "length cs < length s" using Cons by simp
      with 1 have ih: "length (split_acc (str ''RETURNS void'') None (c # acc) cs)
                          = Suc (count_occurrences (str ''RETURNS void'') cs)"
        by blast
      from False Cons have "split_acc (str ''RETURNS void'') None acc s
              = split_acc (str ''RETURNS void'') None (c # acc) cs"
        using split_acc_nomatch [of 82 "str ''ETURNS void''" c cs acc] by simp
      moreover from False Cons have "count_occurrences (str ''RETURNS void'') s
                       = count_occurrences (str ''RETURNS void'') cs"
        using count_occurrences_nomatch [of "str ''RETURNS void''" c cs] by simp
      ultimately show ?thesis using ih by simp
    qed
  qed
qed

lemma split_one_marker:
  "count_occurrences (str ''RETURNS void'') (pre @ str ''RETURNS void'' @ post) = 1
   \<Longrightarrow> split_acc (str ''RETURNS void'') None acc (pre @ str ''RETURNS void'' @ post)
         = [rev acc @ pre, post]"
proof (induction pre arbitrary: acc)
  case Nil
  then have "count_occurrences (str ''RETURNS void'') post = 0"
    using marker_border_free [of post] by simp
  then have "split_acc (str ''RETURNS void'') None [] post = [post]"
    using count_occurrences_zero_split [of 82 "str ''ETURNS void''" post "[]"] by simp
  then show ?case by simp
next
  case (Cons c pre)
  have ge: "1 \<le> count_occurrences (str ''RETURNS void'') (pre @ str ''RETURNS void'' @ post)"
    using count_occurrences_ge [of 82 "str ''ETURNS void''" pre post] by simp
  with Cons.prems have np: "\<not> prefix (str ''RETURNS void'') (c # pre @ str ''RETURNS void'' @ post)"
    and one: "count_occurrences (str ''RETURNS void'') (pre @ str ''RETURNS void'' @ post) = 1"
    by (auto split: if_splits)
  from Cons.IH [OF one, of "c # acc"] np show ?case by simp
qed

text \<open>
  C1. Let \<open>func_str\<close> be the serialized spliced statement. If \<open>RETURNS void\<close> does not occur in
  it exactly once, \<open>_get_func_body\<close> fails. If it occurs exactly once, \<open>func_str\<close> is
  \<open>pre @ RETURNS void @ post\<close>, and the function fails unless \<open>pre\<close>, stripped and lowercased,
  is \<open>create function foo.bar()\<close>, and otherwise returns \<open>post\<close> as it stands.
\<close>

theorem get_func_body_split:
  assumes "spliced_func_str c func_sql = Inr func_str"
  shows "(count_occurrences (str ''RETURNS void'') func_str \<noteq> 1 \<longrightarrow>
            get_func_body c func_sql
              = Inl (ValueError (str ''Expected 1 instance of RETURNS void in statement: '' @ func_sql)))
       \<and> (count_occurrences (str ''RETURNS void'') func_str = 1 \<longrightarrow>
            (\<exists>pre post. func_str = pre @ str ''RETURNS void'' @ post)
            \<and> (\<forall>pre post. func_str = pre @ str ''RETURNS void'' @ post \<longrightarrow>
                 get_func_body c func_sql
                   = (if py_lower (py_strip pre) = str ''create function foo.bar()'' then Inr post
                      else Inl (ValueError (str ''Expected CREATE FUNCTION foo.bar() got '' @ pre)))))"
proof (intro conjI impI allI)
  have len: "length (py_split (str ''RETURNS void'') func_str)
               = Suc (count_occurrences (str ''RETURNS void'') func_str)"
    unfolding py_split_def by (rule length_split_marker)
  have body: "get_func_body c func_sql = body_of_func_str func_sql func_str"
    using assms by (simp add: get_func_body_def)
  {
    assume "count_occurrences (str ''RETURNS void'') func_str \<noteq> 1"
    with len have "length (py_split (str ''RETURNS void'') func_str) \<noteq> 2" by simp
    then show "get_func_body c func_sql
              = Inl (ValueError (str ''Expected 1 instance of RETURNS void in statement: '' @ func_sql))"
      unfolding body body_of_func_str_def Let_def by simp
  }
  {
    assume one: "count_occurrences (str ''RETURNS void'') func_str = 1"
    with len have "length (py_split (str ''RETURNS void'') func_str) = 2" by simp
    then obtain a b where ab: "py_split (str ''RETURNS void'') func_str = [a, b]"
      by (cases "py_split (str ''RETURNS void'') func_str" rule: list.exhaust)
         (auto simp: length_Suc_conv)
    have "py_join (str ''RETURNS void'') (split_acc (str ''RETURNS void'') None [] func_str) = func_str"
      using py_join_split_acc [of 82 "str ''ETURNS void''" "[]" func_str] by simp
    with ab have "func_str = a @ str ''RETURNS void'' @ b"
      by (simp add: py_split_def)
    then show "\<exists>pre post. func_str = pre @ str ''RETURNS void'' @ post" by blast
    fix pre post
    assume dec: "func_str = pre @ str ''RETURNS void'' @ post"
    with one have "split_acc (str ''RETURNS void'') None [] (pre @ str ''RETURNS void'' @ post)
                     = [rev [] @ pre, post]"
      by (intro split_one_marker) simp
    with dec have sp: "py_split (str ''RETURNS void'') func_str = [pre, post]"
      by (simp add: py_split_def)
    show "get_func_body c func_sql
                   = (if py_lower (py_strip pre) = str ''create function foo.bar()'' then Inr post
                      else Inl (ValueError (str ''Expected CREATE FUNCTION foo.bar() got '' @ pre)))"
      unfolding body body_of_func_str_def Let_def sp by simp
  }
qed

lemmas codec_eval = example_codec_def example_cfs_def example_dummy_cfs_def example_serialize_def
  example_serialize_cfs_def dummy_func_sql_def parsed_def serialized_def get_create_function_stmt_def
  update_stmt_def spliced_func_str_def get_func_signature_returns_and_type_def
  split_function_try_def split_function_def

lemma example_spliced:
  "spliced_func_str example_codec
     (str ''CREATE FUNCTION s.add(a int, b int) RETURNS int AS $$ select a+b $$ LANGUAGE sql;'')
   = Inr (str ''CREATE FUNCTION foo.bar() '' @ str ''RETURNS void'' @ str '' AS $$ select a+b $$ LANGUAGE sql'')"
  by (simp add: codec_eval)

theorem get_func_body_split_witness:
  "spliced_func_str example_codec
     (str ''CREATE FUNCTION s.add(a int, b int) RETURNS int AS $$ select a+b $$ LANGUAGE sql;'')
     = Inr (str ''CREATE FUNCTION foo.bar() '' @ str ''RETURNS void'' @ str '' AS $$ select a+b $$ LANGUAGE sql'')
   \<and> count_occurrences (str ''RETURNS void'')
        (str ''CREATE FUNCTION foo.bar() '' @ str ''RETURNS void'' @ str '' AS $$ select a+b $$ LANGUAGE sql'') = 1
   \<and> get_func_body example_codec
        (str ''CREATE FUNCTION s.add(a int, b int) RETURNS int AS $$ select a+b $$ LANGUAGE sql;'')
     = Inr (str '' AS $$ select a+b $$ LANGUAGE sql'')"
proof -
  have one: "count_occurrences (str ''RETURNS void'')
        (str ''CREATE FUNCTION foo.bar() '' @ str ''RETURNS void'' @ str '' AS $$ select a+b $$ LANGUAGE sql'') = 1"
    by simp
  have hdr: "py_lower (py_strip (str ''CREATE FUNCTION foo.bar() '')) = str ''create function foo.bar()''"
    by (simp add: py_lower_def py_strip_def py_lstrip_def py_rstrip_def isspace_def ascii_lower_def)
  from get_func_body_split [OF example_spliced] one
  have "get_func_body example_codec
        (str ''CREATE FUNCTION s.add(a int, b int) RETURNS int AS $$ select a+b $$ LANGUAGE sql;'')
     = (if py_lower (py_strip (str ''CREATE FUNCTION foo.bar() '')) = str ''create function foo.bar()''
        then Inr (str '' AS $$ select a+b $$ LANGUAGE sql'')
        else Inl (ValueError (str ''Expected CREATE FUNCTION foo.bar() got '' @ str ''CREATE FUNCTION foo.bar() '')))"
    by blast
  with hdr have "get_func_body example_codec
        (str ''CREATE FUNCTION s.add(a int, b int) RETURNS int AS $$ select a+b $$ LANGUAGE sql;'')
     = Inr (str '' AS $$ select a+b $$ LANGUAGE sql'')"
    by simp
  with example_spliced one show ?thesis by blast
qed

text \<open>
  C2 (as amended). When the codec parses the input to a tree that is not exactly one
  create-function or create-procedure statement, \<open>split_function\<close> fails with a
  \<open>ValueError\<close>, the one raised in \<open>_get_create_function_stmt\<close>: it does not succeed, it does
  not guess, and the failure is not a \<open>SQLParseFailure\<close>, since \<open>split_function\<close> catches
  \<open>PgQueryExc\<close> only. When the tree has not exactly one statement, the message is
  \<open>Expected 1 statement, got n\<close>, \<open>n\<close> the number of statements.
\<close>

theorem split_function_wrong_shape:
  assumes "query_to_pb c sql = Inr t"
    and "\<not> (\<exists>s. stmts t = [CreateFunctionStmt s] \<or> stmts t = [CreateProcedureStmt s])"
  shows "(\<exists>msg. split_function c sql = Inl (ValueError msg))
         \<and> (length (stmts t) \<noteq> 1 \<longrightarrow>
              split_function c sql
                = Inl (ValueError (str ''Expected 1 statement, got '' @ show_nat (length (stmts t)))))"
proof
  from assms(2) have "\<exists>msg. get_create_function_stmt c t = Inl (ValueError msg)"
    unfolding get_create_function_stmt_def
    by (cases "stmts t") (auto split: stmt.splits list.splits option.splits)
  with assms(1) show "\<exists>msg. split_function c sql = Inl (ValueError msg)"
    by (auto simp: split_function_def split_function_try_def
        get_func_signature_returns_and_type_def parsed_def)
next
  show "length (stmts t) \<noteq> 1 \<longrightarrow>
          split_function c sql
            = Inl (ValueError (str ''Expected 1 statement, got '' @ show_nat (length (stmts t))))"
  proof
    assume "length (stmts t) \<noteq> 1"
    then have "get_create_function_stmt c t
                 = Inl (ValueError (str ''Expected 1 statement, got '' @ show_nat (length (stmts t))))"
      unfolding get_create_function_stmt_def by simp
    with assms(1) show "split_function c sql
            = Inl (ValueError (str ''Expected 1 statement, got '' @ show_nat (length (stmts t))))"
      by (simp add: split_function_def split_function_try_def
          get_func_signature_returns_and_type_def parsed_def)
  qed
qed

theorem split_function_wrong_shape_witness:
  "query_to_pb example_codec (str ''select 1; select 2'')
     = Inr \<lparr>stmts = [OtherStmt (str ''SELECT 1''), OtherStmt (str ''SELECT 2'')]\<rparr>
   \<and> length (stmts \<lparr>stmts = [OtherStmt (str ''SELECT 1''), OtherStmt (str ''SELECT 2'')]\<rparr>) = 2
   \<and> (\<exists>msg. split_function example_codec (str ''select 1; select 2'') = Inl (ValueError msg))
   \<and> split_function example_codec (str ''select 1; select 2'')
       = Inl (ValueError (str ''Expected 1 statement, got 2''))
   \<and> query_to_pb example_codec (str ''select 1'') = Inr \<lparr>stmts = [OtherStmt (str ''SELECT 1'')]\<rparr>
   \<and> (\<exists>msg. split_function example_codec (str ''select 1'') = Inl (ValueError msg))"
proof -
  let ?t2 = "\<lparr>stmts = [OtherStmt (str ''SELECT 1''), OtherStmt (str ''SELECT 2'')]\<rparr> :: ustring parse_tree"
  let ?t1 = "\<lparr>stmts = [OtherStmt (str ''SELECT 1'')]\<rparr> :: ustring parse_tree"
  have a: "query_to_pb example_codec (str ''select 1; select 2'') = Inr ?t2"
    by (simp add: example_codec_def dummy_func_sql_def)
  have b: "query_to_pb example_codec (str ''select 1'') = Inr ?t1"
    by (simp add: example_codec_def dummy_func_sql_def)
  have n2: "\<not> (\<exists>s. stmts ?t2 = [CreateFunctionStmt s] \<or> stmts ?t2 = [CreateProcedureStmt s])"
    by simp
  have n1: "\<not> (\<exists>s. stmts ?t1 = [CreateFunctionStmt s] \<or> stmts ?t1 = [CreateProcedureStmt s])"
    by simp
  have l: "length (stmts ?t2) = 2" by simp
  have sn: "show_nat 2 = str ''2''" by simp
  from split_function_wrong_shape [OF a n2] l sn
  have c: "(\<exists>msg. split_function example_codec (str ''select 1; select 2'') = Inl (ValueError msg))
     \<and> split_function example_codec (str ''select 1; select 2'')
         = Inl (ValueError (str ''Expected 1 statement, got 2''))"
    by simp
  from split_function_wrong_shape [OF b n1]
  have d: "\<exists>msg. split_function example_codec (str ''select 1'') = Inl (ValueError msg)"
    by blast
  from a b c d l show ?thesis by blast
qed

text \<open>Two statements: the failure is a \<open>ValueError\<close>, not a \<open>SQLParseFailure\<close>.\<close>

theorem split_function_two_statements:
  "split_function example_codec (str ''select 1; select 2'')
     = Inl (ValueError (str ''Expected 1 statement, got 2''))
   \<and> (\<nexists>m. split_function example_codec (str ''select 1; select 2'') = Inl (SQLParseFailure m))"
  by (simp add: codec_eval)

section \<open>Replacement on lists: what it keeps and what it makes\<close>

lemma expand_Nil [simp]: "expand x new [] = []"
  by (simp add: expand_def)

lemma expand_Cons [simp]: "expand x new (a # t) = (if a = x then new else [a]) @ expand x new t"
  by (simp add: expand_def)

lemma py_replace_single: "py_replace [x] new t = expand x new t"
  by (induction t) auto

lemma expand_absent: "x \<notin> set t \<Longrightarrow> expand x new t = t"
  by (induction t) auto

lemma set_expand: "set (expand x new t) \<subseteq> (set t - {x}) \<union> set new"
  by (induction t) auto

lemma set_py_replace: "set (py_replace old new t) \<subseteq> set t \<union> set new"
proof (induction old new t rule: py_replace.induct)
  case (1 new s)
  then show ?case by auto
next
  case (2 p ps new)
  then show ?case by simp
next
  case (3 p ps new c cs)
  show ?case
  proof (cases "prefix (p # ps) (c # cs)")
    case True
    with 3 have "set (py_replace (p # ps) new (drop (length ps) cs)) \<subseteq> set (drop (length ps) cs) \<union> set new"
      by (simp del: Cons_prefix_Cons)
    moreover have "set (drop (length ps) cs) \<subseteq> set cs"
      by (rule set_drop_subset)
    ultimately show ?thesis using True by (auto simp del: Cons_prefix_Cons)
  next
    case False
    with 3 have "set (py_replace (p # ps) new cs) \<subseteq> set cs \<union> set new"
      by (simp del: Cons_prefix_Cons)
    with False show ?thesis by (auto simp del: Cons_prefix_Cons)
  qed
qed

lemma adjacent_pairs_Nil [simp]: "adjacent_pairs [] = {}"
  by (simp add: adjacent_pairs_def)

lemma adjacent_pairs_single [simp]: "adjacent_pairs [x] = {}"
  by (simp add: adjacent_pairs_def)

lemma adjacent_pairs_Cons2 [simp]:
  "adjacent_pairs (x # y # r) = insert (x, y) (adjacent_pairs (y # r))"
  by (simp add: adjacent_pairs_def)

lemma adjacent_pairs_Cons:
  "adjacent_pairs (a # t) = (if t = [] then {} else {(a, hd t)}) \<union> adjacent_pairs t"
  by (cases t) auto

lemma adjacent_pairs_tl: "adjacent_pairs t \<subseteq> adjacent_pairs (a # t)"
  by (auto simp: adjacent_pairs_Cons)

lemma adjacent_pairs_drop: "adjacent_pairs (drop n t) \<subseteq> adjacent_pairs t"
proof (induction t arbitrary: n)
  case Nil
  then show ?case by simp
next
  case (Cons a t)
  show ?case
  proof (cases n)
    case 0
    then show ?thesis by simp
  next
    case (Suc m)
    with Cons [of m] adjacent_pairs_tl [of t a] show ?thesis by auto
  qed
qed

lemma adjacent_pairs_map:
  "adjacent_pairs (map f t) = (\<lambda>(a, b). (f a, f b)) ` adjacent_pairs t"
  by (induction t rule: induct_list012) auto

lemma no_match_expand:
  assumes "a \<noteq> h"
    and "t \<noteq> [] \<Longrightarrow> \<not> (a = x \<and> (hd t = y \<or> (x = y \<and> hd t = h)))"
  shows "\<not> prefix [x, y] (a # expand h [x, y] t)"
proof (cases t)
  case Nil
  then show ?thesis by simp
next
  case (Cons b t')
  with assms(2) have nb: "\<not> (a = x \<and> (b = y \<or> (x = y \<and> b = h)))"
    by simp
  show ?thesis
  proof (cases "b = h")
    case True
    with nb show ?thesis unfolding Cons by (simp; blast)
  next
    case False
    with nb show ?thesis unfolding Cons by (simp; blast)
  qed
qed

lemma replace_expand:
  assumes "h \<noteq> x" and "h \<noteq> y"
    and "\<And>a b. (a, b) \<in> adjacent_pairs t \<Longrightarrow> \<not> (a = x \<and> (b = y \<or> (x = y \<and> b = h)))"
  shows "py_replace [x, y] [h] (expand h [x, y] t) = t"
  using assms(3)
proof (induction t)
  case Nil
  then show ?case by simp
next
  case (Cons a t)
  have ih: "py_replace [x, y] [h] (expand h [x, y] t) = t"
  proof (rule Cons.IH)
    fix a' b'
    assume m: "(a', b') \<in> adjacent_pairs t"
    from adjacent_pairs_tl [of t a] m have "(a', b') \<in> adjacent_pairs (a # t)"
      by (rule subsetD)
    then show "\<not> (a' = x \<and> (b' = y \<or> (x = y \<and> b' = h)))"
      by (rule Cons.prems)
  qed
  show ?case
  proof (cases "a = h")
    case True
    have "py_replace [x, y] [h] (x # y # expand h [x, y] t) = h # py_replace [x, y] [h] (expand h [x, y] t)"
      by simp
    with True ih show ?thesis by simp
  next
    case False
    have "\<not> prefix [x, y] (a # expand h [x, y] t)"
    proof (rule no_match_expand [OF False])
      assume "t \<noteq> []"
      then have "(a, hd t) \<in> adjacent_pairs (a # t)"
        by (simp add: adjacent_pairs_Cons)
      then show "\<not> (a = x \<and> (hd t = y \<or> (x = y \<and> hd t = h)))"
        by (rule Cons.prems)
    qed
    then have "py_replace [x, y] [h] (a # expand h [x, y] t) = a # py_replace [x, y] [h] (expand h [x, y] t)"
      by (simp del: Cons_prefix_Cons)
    with False ih show ?thesis by simp
  qed
qed

lemma replace_pair_match:
  "py_replace [x, y] new (x # y # t) = new @ py_replace [x, y] new t"
  by simp

lemma replace_pair_nomatch:
  "\<not> prefix [x, y] (a # t) \<Longrightarrow> py_replace [x, y] new (a # t) = a # py_replace [x, y] new t"
  by (simp del: Cons_prefix_Cons)

lemma prefix_pair: "prefix [x, y] t \<longleftrightarrow> (\<exists>r. t = x # y # r)"
  by (auto simp: prefix_def)

text \<open>The first symbol after a replacement of pairs.\<close>

lemma hd_replace_pair:
  assumes "py_replace [x, y] [h] t \<noteq> []"
  shows "(t \<noteq> [] \<and> hd (py_replace [x, y] [h] t) = hd t \<and> \<not> prefix [x, y] t)
         \<or> (hd (py_replace [x, y] [h] t) = h \<and> prefix [x, y] t)"
proof (cases t)
  case Nil
  with assms show ?thesis by simp
next
  case (Cons a t')
  show ?thesis
  proof (cases "prefix [x, y] (a # t')")
    case True
    then obtain r where "a # t' = x # y # r"
      unfolding prefix_pair by blast
    then show ?thesis unfolding Cons by simp
  next
    case False
    from replace_pair_nomatch [OF False] False show ?thesis
      unfolding Cons by (simp del: Cons_prefix_Cons)
  qed
qed

text \<open>Where the neighbours of the result come from.\<close>

lemma adjacent_replace_pair:
  "(a', b') \<in> adjacent_pairs (py_replace [x, y] [h] t) \<Longrightarrow>
     (a', b') \<in> adjacent_pairs t
     \<or> (b' = h \<and> (a', x) \<in> adjacent_pairs t)
     \<or> (a' = h \<and> (y, b') \<in> adjacent_pairs t)
     \<or> (a' = h \<and> b' = h \<and> (y, x) \<in> adjacent_pairs t)"
proof (induction t arbitrary: a' b' rule: length_induct)
  case (1 t)
  let ?R = "py_replace [x, y] [h]"
  show ?case
  proof (cases t)
    case Nil
    with 1(2) show ?thesis by simp
  next
    case (Cons a t')
    show ?thesis
    proof (cases "prefix [x, y] t")
      case True
      then obtain r where t: "t = x # y # r"
        unfolding prefix_pair by blast
      then have R: "?R t = h # ?R r" by simp
      have sub: "adjacent_pairs r \<subseteq> adjacent_pairs t"
        unfolding t using adjacent_pairs_tl [of r y] adjacent_pairs_tl [of "y # r" x] by blast
      from 1(2) R have "(?R r \<noteq> [] \<and> a' = h \<and> b' = hd (?R r)) \<or> (a', b') \<in> adjacent_pairs (?R r)"
        by (auto simp: adjacent_pairs_Cons split: if_splits)
      then show ?thesis
      proof
        assume h1: "?R r \<noteq> [] \<and> a' = h \<and> b' = hd (?R r)"
        with hd_replace_pair [of x y h r]
        have "(r \<noteq> [] \<and> b' = hd r) \<or> (b' = h \<and> prefix [x, y] r)"
          by auto
        then show ?thesis
        proof
          assume "r \<noteq> [] \<and> b' = hd r"
          then have "(y, b') \<in> adjacent_pairs t"
            unfolding t by (cases r) auto
          with h1 show ?thesis by blast
        next
          assume "b' = h \<and> prefix [x, y] r"
          then obtain r' where "b' = h" and "r = x # y # r'"
            unfolding prefix_pair by blast
          then have "(y, x) \<in> adjacent_pairs t" and "b' = h"
            unfolding t by auto
          with h1 show ?thesis by blast
        qed
      next
        assume m: "(a', b') \<in> adjacent_pairs (?R r)"
        have "length r < length t" unfolding t by simp
        with 1(1) m have
          "(a', b') \<in> adjacent_pairs r
           \<or> (b' = h \<and> (a', x) \<in> adjacent_pairs r)
           \<or> (a' = h \<and> (y, b') \<in> adjacent_pairs r)
           \<or> (a' = h \<and> b' = h \<and> (y, x) \<in> adjacent_pairs r)"
          by blast
        with sub show ?thesis by blast
      qed
    next
      case False
      then have R: "?R t = a # ?R t'"
        unfolding Cons by (rule replace_pair_nomatch)
      have sub: "adjacent_pairs t' \<subseteq> adjacent_pairs t"
        unfolding Cons by (rule adjacent_pairs_tl)
      from 1(2) R have "(?R t' \<noteq> [] \<and> a' = a \<and> b' = hd (?R t')) \<or> (a', b') \<in> adjacent_pairs (?R t')"
        by (auto simp: adjacent_pairs_Cons split: if_splits)
      then show ?thesis
      proof
        assume h1: "?R t' \<noteq> [] \<and> a' = a \<and> b' = hd (?R t')"
        with hd_replace_pair [of x y h t']
        have "(t' \<noteq> [] \<and> b' = hd t') \<or> (b' = h \<and> prefix [x, y] t')"
          by auto
        then show ?thesis
        proof
          assume "t' \<noteq> [] \<and> b' = hd t'"
          then have "(a, b') \<in> adjacent_pairs t"
            unfolding Cons by (cases t') auto
          with h1 show ?thesis by blast
        next
          assume "b' = h \<and> prefix [x, y] t'"
          then obtain r' where "b' = h" and "t' = x # y # r'"
            unfolding prefix_pair by blast
          then have "(a, x) \<in> adjacent_pairs t" and "b' = h"
            unfolding Cons by auto
          with h1 show ?thesis by blast
        qed
      next
        assume m: "(a', b') \<in> adjacent_pairs (?R t')"
        have "length t' < length t" unfolding Cons by simp
        with 1(1) m have
          "(a', b') \<in> adjacent_pairs t'
           \<or> (b' = h \<and> (a', x) \<in> adjacent_pairs t')
           \<or> (a' = h \<and> (y, b') \<in> adjacent_pairs t')
           \<or> (a' = h \<and> b' = h \<and> (y, x) \<in> adjacent_pairs t')"
          by blast
        with sub show ?thesis by blast
      qed
    qed
  qed
qed

text \<open>After the replacement no pair is left, and no first half stands before a sentinel.\<close>

lemma replace_pair_none_left:
  assumes "h \<noteq> x" and "h \<noteq> y"
  shows "(x, y) \<notin> adjacent_pairs (py_replace [x, y] [h] t)
         \<and> (x = y \<and> h \<notin> set t \<longrightarrow> (x, h) \<notin> adjacent_pairs (py_replace [x, y] [h] t))"
proof (induction t rule: length_induct)
  case (1 t)
  let ?R = "py_replace [x, y] [h]"
  show ?case
  proof (cases t)
    case Nil
    then show ?thesis by simp
  next
    case (Cons a t')
    show ?thesis
    proof (cases "prefix [x, y] t")
      case True
      then obtain r where t: "t = x # y # r"
        unfolding prefix_pair by blast
      then have R: "?R t = h # ?R r" by simp
      have "length r < length t" unfolding t by simp
      with 1 have ih: "(x, y) \<notin> adjacent_pairs (?R r)
         \<and> (x = y \<and> h \<notin> set r \<longrightarrow> (x, h) \<notin> adjacent_pairs (?R r))"
        by blast
      have "h \<notin> set t \<Longrightarrow> h \<notin> set r" unfolding t by simp
      with ih assms show ?thesis
        unfolding R by (auto simp: adjacent_pairs_Cons)
    next
      case False
      then have R: "?R t = a # ?R t'"
        unfolding Cons by (rule replace_pair_nomatch)
      have "length t' < length t" unfolding Cons by simp
      with 1 have ih: "(x, y) \<notin> adjacent_pairs (?R t')
         \<and> (x = y \<and> h \<notin> set t' \<longrightarrow> (x, h) \<notin> adjacent_pairs (?R t'))"
        by blast
      have hs: "h \<notin> set t \<Longrightarrow> h \<notin> set t'" unfolding Cons by simp
      have first: "?R t' \<noteq> [] \<Longrightarrow> a = x \<Longrightarrow>
                     hd (?R t') \<noteq> y \<and> (x = y \<and> h \<notin> set t \<longrightarrow> hd (?R t') \<noteq> h)"
      proof -
        assume ne: "?R t' \<noteq> []" and ax: "a = x"
        from hd_replace_pair [OF ne]
        show ?thesis
        proof
          assume k: "t' \<noteq> [] \<and> hd (?R t') = hd t' \<and> \<not> prefix [x, y] t'"
          then obtain b r where t': "t' = b # r" by (cases t') auto
          from False ax have "b \<noteq> y" unfolding Cons t' by simp
          moreover have "h \<notin> set t \<Longrightarrow> b \<noteq> h" unfolding Cons t' by auto
          ultimately show ?thesis using k t' by auto
        next
          assume k: "hd (?R t') = h \<and> prefix [x, y] t'"
          then obtain r where t': "t' = x # y # r"
            unfolding prefix_pair by blast
          from False ax have "x \<noteq> y" unfolding Cons t' by simp
          with assms(2) k show ?thesis by auto
        qed
      qed
      from ih hs first show ?thesis
        unfolding R by (auto simp: adjacent_pairs_Cons)
    qed
  qed
qed

text \<open>The neighbours of a list in which a symbol has been written out as two.\<close>

lemma hd_expand:
  "t \<noteq> [] \<Longrightarrow> hd (expand h [p, q] t) = (if hd t = h then p else hd t)"
  by (cases t) auto

lemma expand_eq_Nil: "expand h [p, q] t = [] \<longleftrightarrow> t = []"
  by (cases t) auto

lemma adjacent_expand:
  "(a', b') \<in> adjacent_pairs (expand h [p, q] t) \<Longrightarrow>
     (a' = p \<and> b' = q \<and> h \<in> set t)
     \<or> (\<exists>a b. (a, b) \<in> adjacent_pairs t
               \<and> a' = (if a = h then q else a) \<and> b' = (if b = h then p else b))"
proof (induction t)
  case Nil
  then show ?case by simp
next
  case (Cons a t)
  let ?E = "expand h [p, q]"
  let ?G = "\<lambda>u. (a' = p \<and> b' = q \<and> h \<in> set u)
     \<or> (\<exists>a b. (a, b) \<in> adjacent_pairs u
               \<and> a' = (if a = h then q else a) \<and> b' = (if b = h then p else b))"
  have sub: "adjacent_pairs t \<subseteq> adjacent_pairs (a # t)"
    by (rule adjacent_pairs_tl)
  have rest: "?G (a # t)" if m: "(a', b') \<in> adjacent_pairs (?E t)"
  proof -
    from Cons.IH [OF m] have "?G t" .
    then show ?thesis
    proof
      assume "a' = p \<and> b' = q \<and> h \<in> set t"
      then show ?thesis by simp
    next
      assume "\<exists>a b. (a, b) \<in> adjacent_pairs t
               \<and> a' = (if a = h then q else a) \<and> b' = (if b = h then p else b)"
      then obtain c d where "(c, d) \<in> adjacent_pairs t"
        and "a' = (if c = h then q else c)" and "b' = (if d = h then p else d)"
        by blast
      with sub have "(c, d) \<in> adjacent_pairs (a # t)
          \<and> a' = (if c = h then q else c) \<and> b' = (if d = h then p else d)"
        by blast
      then show ?thesis by blast
    qed
  qed
  have link: "?G (a # t)"
    if ne: "t \<noteq> []" and a': "a' = (if a = h then q else a)" and b': "b' = hd (?E t)"
  proof -
    from ne have "(a, hd t) \<in> adjacent_pairs (a # t)"
      by (simp add: adjacent_pairs_Cons)
    moreover from ne b' have "b' = (if hd t = h then p else hd t)"
      by (simp add: hd_expand)
    ultimately have "(a, hd t) \<in> adjacent_pairs (a # t)
          \<and> a' = (if a = h then q else a) \<and> b' = (if hd t = h then p else hd t)"
      using a' by blast
    then show ?thesis by blast
  qed
  show ?case
  proof (cases "a = h")
    case True
    then have E: "?E (a # t) = p # q # ?E t" by simp
    from Cons.prems have "(a' = p \<and> b' = q) \<or> (?E t \<noteq> [] \<and> a' = q \<and> b' = hd (?E t))
                            \<or> (a', b') \<in> adjacent_pairs (?E t)"
      unfolding E by (auto simp: adjacent_pairs_Cons split: if_splits)
    then show ?thesis
    proof (elim disjE)
      assume "a' = p \<and> b' = q"
      with True show ?thesis by simp
    next
      assume k: "?E t \<noteq> [] \<and> a' = q \<and> b' = hd (?E t)"
      then have ne: "t \<noteq> []" by (simp add: expand_eq_Nil)
      from k True have "a' = (if a = h then q else a)" and "b' = hd (?E t)" by auto
      with ne show ?thesis by (rule link)
    next
      assume "(a', b') \<in> adjacent_pairs (?E t)"
      then show ?thesis by (rule rest)
    qed
  next
    case False
    then have E: "?E (a # t) = a # ?E t" by simp
    from Cons.prems have "(?E t \<noteq> [] \<and> a' = a \<and> b' = hd (?E t))
                            \<or> (a', b') \<in> adjacent_pairs (?E t)"
      unfolding E by (auto simp: adjacent_pairs_Cons split: if_splits)
    then show ?thesis
    proof
      assume k: "?E t \<noteq> [] \<and> a' = a \<and> b' = hd (?E t)"
      then have ne: "t \<noteq> []" by (simp add: expand_eq_Nil)
      from k False have "a' = (if a = h then q else a)" and "b' = hd (?E t)" by auto
      with ne show ?thesis by (rule link)
    next
      assume "(a', b') \<in> adjacent_pairs (?E t)"
      then show ?thesis by (rule rest)
    qed
  qed
qed

section \<open>Escaping colons on symbols\<close>

lemma adjacent_pairs_set: "(a, b) \<in> adjacent_pairs t \<Longrightarrow> a \<in> set t \<and> b \<in> set t"
  by (induction t rule: induct_list012) auto

lemma tokenize_syms_unfold:
  "tokenize_syms t =
     py_replace [Ch 92, Ch 58] [Holder 3]
       (py_replace [Ch 58, Ch 61] [Holder 2] (py_replace [Ch 58, Ch 58] [Holder 1] t))"
  by (simp add: tokenize_syms_def backslash_def)

lemma restore_syms_unfold:
  "restore_syms t =
     expand (Holder 1) [Ch 58, Ch 58] (expand (Holder 2) [Ch 58, Ch 61] (expand (Holder 3) [Ch 92, Ch 58] t))"
  by (simp add: restore_syms_def backslash_def py_replace_single)

lemma escape_plpgsql_syms_unfold:
  "escape_plpgsql_syms t = restore_syms (expand (Ch 58) [Ch 92, Ch 58] (tokenize_syms t))"
  by (simp add: escape_plpgsql_syms_def backslash_def py_replace_single)

lemma bad_pair_iff:
  "bad_pair x y \<longleftrightarrow>
     ((x = Ch 58 \<or> x = Holder 3) \<and> (y = Ch 58 \<or> y = Ch 61 \<or> y = Holder 1 \<or> y = Holder 2)) \<or>
     (x = Ch 92 \<and> y = Ch 58)"
  by (simp add: bad_pair_def backslash_def)

text \<open>The symbols \<open>tokenize_syms\<close> makes of a text have no bad neighbours.\<close>

lemma tokenize_no_bad_pair:
  assumes "plain t" and "(a, b) \<in> adjacent_pairs (tokenize_syms t)"
  shows "\<not> bad_pair a b"
proof -
  let ?t1 = "py_replace [Ch 58, Ch 58] [Holder 1] t"
  let ?t2 = "py_replace [Ch 58, Ch 61] [Holder 2] ?t1"
  let ?t3 = "py_replace [Ch 92, Ch 58] [Holder 3] ?t2"
  from assms(1) have h1: "Holder 1 \<notin> set t"
    by (auto simp: plain_def)
  have s1: "set ?t1 \<subseteq> set t \<union> {Holder 1}"
    using set_py_replace [of "[Ch 58, Ch 58]" "[Holder 1]" t] by simp
  have s2: "set ?t2 \<subseteq> set t \<union> {Holder 1, Holder 2}"
    using set_py_replace [of "[Ch 58, Ch 61]" "[Holder 2]" ?t1] s1 by auto
  from assms(1) s1 have h2: "Holder 2 \<notin> set ?t1"
    by (auto simp: plain_def)
  from assms(1) s2 have h3: "Holder 3 \<notin> set ?t2"
    by (auto simp: plain_def)
  have p1: "(Ch 58, Ch 58) \<notin> adjacent_pairs ?t1" "(Ch 58, Holder 1) \<notin> adjacent_pairs ?t1"
    using replace_pair_none_left [of "Holder 1" "Ch 58" "Ch 58" t] h1 by auto
  have p1': "(Ch 58, Holder 2) \<notin> adjacent_pairs ?t1"
    using h2 adjacent_pairs_set [of "Ch 58" "Holder 2" ?t1] by blast
  have p2e: "(Ch 58, Ch 61) \<notin> adjacent_pairs ?t2"
    using replace_pair_none_left [of "Holder 2" "Ch 58" "Ch 61" ?t1] by simp
  have p2: "(Ch 58, z) \<notin> adjacent_pairs ?t2"
    if "z = Ch 58 \<or> z = Ch 61 \<or> z = Holder 1 \<or> z = Holder 2" for z
  proof
    assume m: "(Ch 58, z) \<in> adjacent_pairs ?t2"
    from adjacent_replace_pair [OF m] p1 p1' p2e m that show False
      by auto
  qed
  have p2': "(Holder 3, z) \<notin> adjacent_pairs ?t2" for z
    using h3 adjacent_pairs_set [of "Holder 3" z ?t2] by blast
  have p3: "(Ch 92, Ch 58) \<notin> adjacent_pairs ?t3"
    using replace_pair_none_left [of "Holder 3" "Ch 92" "Ch 58" ?t2] by simp
  from assms(2) have m: "(a, b) \<in> adjacent_pairs ?t3"
    by (simp add: tokenize_syms_unfold)
  show ?thesis
  proof
    assume bad: "bad_pair a b"
    from adjacent_replace_pair [OF m] bad p2 p2' p3 m show False
      unfolding bad_pair_iff by auto
  qed
qed

text \<open>Symbols without bad neighbours are what \<open>tokenize_syms\<close> makes of their text.\<close>

lemma tokenize_restore:
  assumes nb: "\<And>a b. (a, b) \<in> adjacent_pairs t \<Longrightarrow> \<not> bad_pair a b"
  shows "tokenize_syms (restore_syms t) = t"
proof -
  let ?v = "expand (Holder 3) [Ch 92, Ch 58] t"
  let ?u = "expand (Holder 2) [Ch 58, Ch 61] ?v"
  have v_pairs: "\<not> (a = Ch 58 \<and> (b = Ch 58 \<or> b = Ch 61 \<or> b = Holder 1 \<or> b = Holder 2))"
    if m: "(a, b) \<in> adjacent_pairs ?v" for a b
  proof
    assume k: "a = Ch 58 \<and> (b = Ch 58 \<or> b = Ch 61 \<or> b = Holder 1 \<or> b = Holder 2)"
    from k have "\<not> (a = Ch 92 \<and> b = Ch 58 \<and> Holder 3 \<in> set t)" by simp
    with adjacent_expand [OF m]
    obtain a1 b1 where m1: "(a1, b1) \<in> adjacent_pairs t"
      and a: "a = (if a1 = Holder 3 then Ch 58 else a1)"
      and b: "b = (if b1 = Holder 3 then Ch 92 else b1)"
      by blast
    from a k have "a1 = Ch 58 \<or> a1 = Holder 3" by (auto split: if_splits)
    moreover from b k have "b1 = Ch 58 \<or> b1 = Ch 61 \<or> b1 = Holder 1 \<or> b1 = Holder 2"
      by (auto split: if_splits)
    ultimately have "bad_pair a1 b1" unfolding bad_pair_iff by blast
    with nb [OF m1] show False by simp
  qed
  have u_pairs: "\<not> (a = Ch 58 \<and> (b = Ch 58 \<or> b = Holder 1))"
    if m: "(a, b) \<in> adjacent_pairs ?u" for a b
  proof
    assume k: "a = Ch 58 \<and> (b = Ch 58 \<or> b = Holder 1)"
    from k have "\<not> (a = Ch 58 \<and> b = Ch 61 \<and> Holder 2 \<in> set ?v)" by auto
    with adjacent_expand [OF m]
    obtain a1 b1 where m1: "(a1, b1) \<in> adjacent_pairs ?v"
      and a: "a = (if a1 = Holder 2 then Ch 61 else a1)"
      and b: "b = (if b1 = Holder 2 then Ch 58 else b1)"
      by blast
    from a k have "a1 = Ch 58" by (auto split: if_splits)
    moreover from b k have "b1 = Ch 58 \<or> b1 = Holder 1 \<or> b1 = Holder 2"
      by (auto split: if_splits)
    ultimately show False using v_pairs [OF m1] by blast
  qed
  have r1: "py_replace [Ch 58, Ch 58] [Holder 1] (expand (Holder 1) [Ch 58, Ch 58] ?u) = ?u"
  proof (rule replace_expand)
    fix a b
    assume "(a, b) \<in> adjacent_pairs ?u"
    from u_pairs [OF this]
    show "\<not> (a = Ch 58 \<and> (b = Ch 58 \<or> Ch 58 = Ch 58 \<and> b = Holder 1))" by simp
  qed simp_all
  have r2: "py_replace [Ch 58, Ch 61] [Holder 2] ?u = ?v"
  proof (rule replace_expand)
    fix a b
    assume "(a, b) \<in> adjacent_pairs ?v"
    from v_pairs [OF this]
    show "\<not> (a = Ch 58 \<and> (b = Ch 61 \<or> Ch 58 = Ch 61 \<and> b = Holder 2))" by simp
  qed simp_all
  have r3: "py_replace [Ch 92, Ch 58] [Holder 3] ?v = t"
  proof (rule replace_expand)
    fix a b
    assume "(a, b) \<in> adjacent_pairs t"
    from nb [OF this]
    show "\<not> (a = Ch 92 \<and> (b = Ch 58 \<or> Ch 92 = Ch 58 \<and> b = Holder 3))"
      unfolding bad_pair_iff by simp
  qed simp_all
  show ?thesis
    unfolding tokenize_syms_unfold restore_syms_unfold r1 r2 r3 ..
qed

text \<open>Escaping a lone colon and writing the sentinel of an escaped colon out come to the same.\<close>

lemma expand_single_map: "expand x [z] t = map (\<lambda>a. if a = x then z else a) t"
  by (induction t) auto

lemma restore_escape:
  "restore_syms (expand (Ch 58) [Ch 92, Ch 58] t) = restore_syms (expand (Ch 58) [Holder 3] t)"
proof -
  have "expand (Holder 3) [Ch 92, Ch 58] (expand (Ch 58) [Ch 92, Ch 58] t)
          = expand (Holder 3) [Ch 92, Ch 58] (expand (Ch 58) [Holder 3] t)"
    by (induction t) auto
  then show ?thesis by (simp only: restore_syms_unfold)
qed

lemma no_colon_left: "Ch 58 \<notin> set (expand (Ch 58) [Holder 3] t)"
  by (induction t) auto

lemma no_bad_pair_escaped:
  assumes nb: "\<And>a b. (a, b) \<in> adjacent_pairs t \<Longrightarrow> \<not> bad_pair a b"
    and m: "(a, b) \<in> adjacent_pairs (expand (Ch 58) [Holder 3] t)"
  shows "\<not> bad_pair a b"
proof
  assume bad: "bad_pair a b"
  from m obtain a1 b1 where m1: "(a1, b1) \<in> adjacent_pairs t"
    and a: "a = (if a1 = Ch 58 then Holder 3 else a1)"
    and b: "b = (if b1 = Ch 58 then Holder 3 else b1)"
    unfolding expand_single_map adjacent_pairs_map by auto
  from bad a b have "bad_pair a1 b1"
    unfolding bad_pair_iff by (auto split: if_splits)
  with nb [OF m1] show False by simp
qed

text \<open>On symbols, escaping twice is escaping once, and no sentinel is left.\<close>

lemma escape_plpgsql_syms_idem:
  assumes "plain t"
  shows "map Ch s = escape_plpgsql_syms t \<Longrightarrow> escape_plpgsql_syms (map Ch s) = map Ch s"
proof -
  assume s: "map Ch s = escape_plpgsql_syms t"
  let ?g = "tokenize_syms t"
  let ?g3 = "expand (Ch 58) [Holder 3] ?g"
  have nb: "\<not> bad_pair a b" if "(a, b) \<in> adjacent_pairs ?g" for a b
    using assms that by (rule tokenize_no_bad_pair)
  have nb3: "\<not> bad_pair a b" if "(a, b) \<in> adjacent_pairs ?g3" for a b
    using nb that by (rule no_bad_pair_escaped)
  have out: "escape_plpgsql_syms t = restore_syms ?g3"
    unfolding escape_plpgsql_syms_unfold by (rule restore_escape)
  have "tokenize_syms (restore_syms ?g3) = ?g3"
    using nb3 by (rule tokenize_restore)
  then have "escape_plpgsql_syms (restore_syms ?g3)
               = restore_syms (expand (Ch 58) [Ch 92, Ch 58] ?g3)"
    by (simp only: escape_plpgsql_syms_unfold)
  also have "\<dots> = restore_syms ?g3"
    using expand_absent [OF no_colon_left [of ?g], of "[Ch 92, Ch 58]"] by simp
  finally show ?thesis unfolding s out .
qed

lemma plain_map_Ch: "plain (map Ch s)"
  by (simp add: plain_def)

lemma escape_plpgsql_syms_plain:
  assumes "plain t"
  shows "plain (escape_plpgsql_syms t)"
proof -
  let ?t1 = "py_replace [Ch 58, Ch 58] [Holder 1] t"
  let ?t2 = "py_replace [Ch 58, Ch 61] [Holder 2] ?t1"
  let ?t3 = "py_replace [Ch 92, Ch 58] [Holder 3] ?t2"
  let ?t4 = "expand (Ch 58) [Ch 92, Ch 58] ?t3"
  let ?t5 = "expand (Holder 3) [Ch 92, Ch 58] ?t4"
  let ?t6 = "expand (Holder 2) [Ch 58, Ch 61] ?t5"
  let ?t7 = "expand (Holder 1) [Ch 58, Ch 58] ?t6"
  let ?C = "range Ch"
  from assms have s0: "set t \<subseteq> ?C" by (auto simp: plain_def)
  have s1: "set ?t1 \<subseteq> ?C \<union> {Holder 1}"
    using set_py_replace [of "[Ch 58, Ch 58]" "[Holder 1]" t] s0 by auto
  have s2: "set ?t2 \<subseteq> ?C \<union> {Holder 1, Holder 2}"
    using set_py_replace [of "[Ch 58, Ch 61]" "[Holder 2]" ?t1] s1 by auto
  have s3: "set ?t3 \<subseteq> ?C \<union> {Holder 1, Holder 2, Holder 3}"
    using set_py_replace [of "[Ch 92, Ch 58]" "[Holder 3]" ?t2] s2 by auto
  have s4: "set ?t4 \<subseteq> ?C \<union> {Holder 1, Holder 2, Holder 3}"
    using set_expand [of "Ch 58" "[Ch 92, Ch 58]" ?t3] s3 by auto
  have s5: "set ?t5 \<subseteq> ?C \<union> {Holder 1, Holder 2}"
    using set_expand [of "Holder 3" "[Ch 92, Ch 58]" ?t4] s4 by auto
  have s6: "set ?t6 \<subseteq> ?C \<union> {Holder 1}"
    using set_expand [of "Holder 2" "[Ch 58, Ch 61]" ?t5] s5 by auto
  have s7: "set ?t7 \<subseteq> ?C"
    using set_expand [of "Holder 1" "[Ch 58, Ch 58]" ?t6] s6 by auto
  have "escape_plpgsql_syms t = ?t7"
    by (simp only: escape_plpgsql_syms_unfold restore_syms_unfold tokenize_syms_unfold)
  with s7 show ?thesis by (auto simp: plain_def)
qed

section \<open>Escaping colons on text: the sentinels\<close>

lemma py_replace_match:
  "prefix (p # ps) s \<Longrightarrow>
   py_replace (p # ps) new s = new @ py_replace (p # ps) new (drop (length (p # ps)) s)"
  by (cases s) (auto simp del: Cons_prefix_Cons)

lemma py_replace_nomatch:
  "\<not> prefix (p # ps) (c # cs) \<Longrightarrow>
   py_replace (p # ps) new (c # cs) = c # py_replace (p # ps) new cs"
  by (simp del: Cons_prefix_Cons)

lemma py_replace_skip_first:
  "\<forall>x\<in>set xs. x \<noteq> p \<Longrightarrow>
   py_replace (p # ps) new (xs @ rest) = xs @ py_replace (p # ps) new rest"
  by (induction xs) auto

lemma render_append: "render hs (s @ t) = render hs s @ render hs t"
  by (induction s) auto

lemma render_map_Ch: "render hs (map Ch s) = s"
  by (induction s) auto

lemma is_uuid_length: "is_uuid h \<Longrightarrow> length h = 36"
proof -
  assume "is_uuid h"
  then have "length (map char_class h) = length uuid_pattern"
    by (simp add: is_uuid_def)
  then show ?thesis by (simp add: uuid_pattern_def)
qed

lemma is_uuid_classes: "is_uuid h \<Longrightarrow> c \<in> set h \<Longrightarrow> char_class c \<noteq> Other"
proof -
  assume u: "is_uuid h" and c: "c \<in> set h"
  then have "char_class c \<in> set (map char_class h)" by simp
  with u have "char_class c \<in> set uuid_pattern" by (simp add: is_uuid_def)
  then show ?thesis by (auto simp: uuid_pattern_def)
qed

lemma prefix_render:
  assumes "\<And>i. is_uuid (hs i)"
  shows "\<forall>c\<in>set pat. char_class c = Other \<Longrightarrow>
         prefix pat (render hs t) \<longleftrightarrow> prefix (map Ch pat) t"
proof (induction pat arbitrary: t)
  case Nil
  then show ?case by simp
next
  case (Cons p ps)
  show ?case
  proof (cases t)
    case Nil
    then show ?thesis by simp
  next
    case (Cons x t')
    show ?thesis
    proof (cases x)
      case (Ch c)
      with Cons Cons.IH [of t'] Cons.prems show ?thesis by simp
    next
      case (Holder i)
      from is_uuid_length [OF assms, of i] obtain y ys where h: "hs i = y # ys"
        by (cases "hs i") auto
      then have "y \<in> set (hs i)" by simp
      with is_uuid_classes [OF assms] have "char_class y \<noteq> Other" by blast
      with Cons.prems have "p \<noteq> y" by auto
      with Cons Holder h show ?thesis by simp
    qed
  qed
qed

lemma drop_render:
  "prefix (map Ch pat) t \<Longrightarrow> drop (length pat) (render hs t) = render hs (drop (length pat) t)"
proof -
  assume "prefix (map Ch pat) t"
  then obtain r where "t = map Ch pat @ r" by (auto simp: prefix_def)
  then show ?thesis by (simp add: render_append render_map_Ch)
qed

text \<open>
  Replacing a piece of text that has no character a sentinel can have: the same on the text
  and on the symbols.
\<close>

lemma replace_text_render:
  assumes u: "\<And>i. is_uuid (hs i)"
    and o: "\<forall>c\<in>set (p # ps). char_class c = Other"
  shows "py_replace (p # ps) (render hs new) (render hs t)
           = render hs (py_replace (map Ch (p # ps)) new t)"
proof (induction t rule: length_induct)
  case (1 t)
  show ?case
  proof (cases t)
    case Nil
    then show ?thesis by simp
  next
    case (Cons x t')
    have pr: "prefix (p # ps) (render hs t) \<longleftrightarrow> prefix (map Ch (p # ps)) t"
      using u o by (rule prefix_render)
    show ?thesis
    proof (cases x)
      case (Ch c)
      show ?thesis
      proof (cases "prefix (map Ch (p # ps)) t")
        case True
        with pr have m: "prefix (p # ps) (render hs t)" by simp
        have "length (drop (length (p # ps)) t) < length t"
          unfolding Cons by simp
        with 1 have ih: "py_replace (p # ps) (render hs new) (render hs (drop (length (p # ps)) t))
                 = render hs (py_replace (map Ch (p # ps)) new (drop (length (p # ps)) t))"
          by blast
        from True have m': "prefix (Ch p # map Ch ps) t" by simp
        have "py_replace (p # ps) (render hs new) (render hs t)
                = render hs new @ py_replace (p # ps) (render hs new) (render hs (drop (length (p # ps)) t))"
          using py_replace_match [OF m] drop_render [OF True, of hs] by simp
        moreover have "py_replace (map Ch (p # ps)) new t
                = new @ py_replace (map Ch (p # ps)) new (drop (length (p # ps)) t)"
          using py_replace_match [OF m'] by simp
        ultimately show ?thesis using ih by (simp add: render_append)
      next
        case False
        with pr have nm: "\<not> prefix (p # ps) (c # render hs t')"
          unfolding Cons Ch by simp
        from False have nm': "\<not> prefix (Ch p # map Ch ps) (Ch c # t')"
          unfolding Cons Ch by simp
        have "length t' < length t" unfolding Cons by simp
        with 1 have ih: "py_replace (p # ps) (render hs new) (render hs t')
                 = render hs (py_replace (map Ch (p # ps)) new t')"
          by blast
        from py_replace_nomatch [OF nm] py_replace_nomatch [OF nm'] ih
        show ?thesis unfolding Cons Ch by simp
      qed
    next
      case (Holder i)
      have "\<forall>y\<in>set (hs i). y \<noteq> p"
        using is_uuid_classes [OF u] o by auto
      then have l: "py_replace (p # ps) (render hs new) (hs i @ render hs t')
               = hs i @ py_replace (p # ps) (render hs new) (render hs t')"
        by (rule py_replace_skip_first)
      have "length t' < length t" unfolding Cons by simp
      with 1 have ih: "py_replace (p # ps) (render hs new) (render hs t')
                 = render hs (py_replace (map Ch (p # ps)) new t')"
        by blast
      from l ih show ?thesis unfolding Cons Holder by simp
    qed
  qed
qed

lemma uuid_shift_clash_1:
  assumes "1 \<le> j" and "j \<le> 23"
  shows "\<not> prefix (drop j uuid_pattern) (uuid_pattern @ r)"
proof -
  from assms have "j = 1 \<or> j = 2 \<or> j = 3 \<or> j = 4 \<or> j = 5 \<or> j = 6 \<or> j = 7 \<or> j = 8 \<or> j = 9
      \<or> j = 10 \<or> j = 11 \<or> j = 12 \<or> j = 13 \<or> j = 14 \<or> j = 15 \<or> j = 16 \<or> j = 17 \<or> j = 18
      \<or> j = 19 \<or> j = 20 \<or> j = 21 \<or> j = 22 \<or> j = 23"
    by arith
  then show ?thesis
    by (elim disjE) (simp_all add: uuid_pattern_def)
qed

lemma uuid_shift_clash_2:
  assumes "1 \<le> k" and "k \<le> 27"
  shows "\<not> prefix uuid_pattern (drop k uuid_pattern @ r)"
proof -
  from assms have "k = 1 \<or> k = 2 \<or> k = 3 \<or> k = 4 \<or> k = 5 \<or> k = 6 \<or> k = 7 \<or> k = 8 \<or> k = 9
      \<or> k = 10 \<or> k = 11 \<or> k = 12 \<or> k = 13 \<or> k = 14 \<or> k = 15 \<or> k = 16 \<or> k = 17 \<or> k = 18
      \<or> k = 19 \<or> k = 20 \<or> k = 21 \<or> k = 22 \<or> k = 23 \<or> k = 24 \<or> k = 25 \<or> k = 26 \<or> k = 27"
    by arith
  then show ?thesis
    by (elim disjE) (simp_all add: uuid_pattern_def)
qed

lemma is_uuid_drop_classes: "is_uuid h \<Longrightarrow> map char_class (drop j h) = drop j uuid_pattern"
proof -
  assume "is_uuid h"
  then have "drop j (map char_class h) = drop j uuid_pattern"
    by (simp only: is_uuid_def)
  then show ?thesis by (simp only: drop_map)
qed

lemma render_classes_Holder:
  "is_uuid (hs i) \<Longrightarrow>
   map char_class (render hs (Holder i # t)) = uuid_pattern @ map char_class (render hs t)"
  by (simp add: is_uuid_def)

text \<open>
  A sentinel read from its character \<open>j\<close> on, in a text with sentinels in it: up to the last
  hyphen it is read from characters of the text.
\<close>

lemma window_in_text:
  assumes u: "\<And>i. is_uuid (hs i)" and h: "is_uuid h"
  shows "1 \<le> j \<Longrightarrow> j \<le> 24 \<Longrightarrow> prefix (drop j h) (render hs t) \<Longrightarrow>
         prefix (map Ch (take (24 - j) (drop j h))) t"
proof (induction t arbitrary: j)
  case Nil
  from h have "length h = 36" by (rule is_uuid_length)
  with Nil show ?case by simp
next
  case (Cons x t)
  from h have len: "length h = 36" by (rule is_uuid_length)
  show ?case
  proof (cases "j = 24")
    case True
    then show ?thesis by simp
  next
    case False
    with Cons.prems have j: "j \<le> 23" by simp
    with len have dj: "drop j h = h ! j # drop (Suc j) h"
      by (simp add: Cons_nth_drop_Suc)
    from j have tk: "24 - j = Suc (24 - Suc j)" by simp
    show ?thesis
    proof (cases x)
      case (Ch c)
      from Cons.prems(3) have c: "h ! j = c" and r: "prefix (drop (Suc j) h) (render hs t)"
        unfolding dj Ch by simp_all
      from j have "1 \<le> Suc j" and "Suc j \<le> 24" by simp_all
      from Cons.IH [OF this r]
      have "prefix (map Ch (take (24 - Suc j) (drop (Suc j) h))) t" .
      then show ?thesis
        unfolding dj tk Ch using c by simp
    next
      case (Holder i)
      from Cons.prems(3) have "prefix (map char_class (drop j h)) (map char_class (render hs (Holder i # t)))"
        unfolding Holder by (rule map_mono_prefix)
      then have "prefix (drop j uuid_pattern) (uuid_pattern @ map char_class (render hs t))"
        unfolding is_uuid_drop_classes [OF h] render_classes_Holder [OF u] .
      with uuid_shift_clash_1 [OF Cons.prems(1) j] show ?thesis by blast
    qed
  qed
qed

lemma take_24_middle:
  assumes "is_uuid h" and "j \<le> 8"
  shows "take (24 - j) (drop j h) = drop j (take 8 h) @ uuid_middle h"
proof -
  from assms(1) have len: "length h = 36" by (rule is_uuid_length)
  have "take (24 - j) (drop j h) = drop j (take 24 h)"
    by (simp add: drop_take)
  also have "take 24 h = take 8 h @ take 16 (drop 8 h)"
    using take_add [of 8 16 h] by simp
  also have "drop j (take 8 h @ take 16 (drop 8 h)) = drop j (take 8 h) @ take 16 (drop 8 h)"
    using assms(2) len by simp
  finally show ?thesis by (simp add: uuid_middle_def)
qed

lemma window_has_middle:
  assumes u: "\<And>i. is_uuid (hs i)" and h: "is_uuid h"
    and j: "1 \<le> j" "j \<le> 8" and p: "prefix (drop j h) (render hs t)"
  shows "sublist (map Ch (uuid_middle h)) t"
proof -
  from j have "j \<le> 24" by simp
  from window_in_text [OF u h j(1) this p]
  have "prefix (map Ch (drop j (take 8 h)) @ map Ch (uuid_middle h)) t"
    unfolding take_24_middle [OF h j(2)] by simp
  then obtain r where "t = map Ch (drop j (take 8 h)) @ map Ch (uuid_middle h) @ r"
    by (auto simp: prefix_def)
  then show ?thesis by (auto simp: sublist_def)
qed

text \<open>No sentinel starts at a character of the text.\<close>

lemma no_window_at_text:
  assumes u: "\<And>i. is_uuid (hs i)" and h: "is_uuid h"
    and safe: "\<not> sublist (map Ch (uuid_middle h)) (Ch c # t)"
  shows "\<not> prefix h (c # render hs t)"
proof
  assume p: "prefix h (c # render hs t)"
  from h have len: "length h = 36" by (rule is_uuid_length)
  then have d0: "h = h ! 0 # drop 1 h"
    using Cons_nth_drop_Suc [of 0 h] by simp
  from p have c: "h ! 0 = c" and r: "prefix (drop 1 h) (render hs t)"
    by (subst (asm) d0, simp)+
  from window_in_text [OF u h _ _ r]
  have "prefix (map Ch (take 23 (drop 1 h))) t" by simp
  then have p1: "prefix (Ch c # map Ch (take 23 (drop 1 h))) (Ch c # t)" by simp
  have e1: "Ch c # map Ch (take 23 (drop 1 h)) = map Ch (take 24 h)"
  proof -
    have "take 24 h = h ! 0 # take 23 (drop 1 h)"
      by (subst d0) (simp add: take_Cons')
    then show ?thesis using c by simp
  qed
  have e2: "take 24 h = take 8 h @ uuid_middle h"
    using take_24_middle [OF h, of 0] by simp
  from p1 have "prefix (map Ch (take 8 h @ uuid_middle h)) (Ch c # t)"
    unfolding e1 e2 .
  then have "prefix (map Ch (take 8 h) @ map Ch (uuid_middle h)) (Ch c # t)"
    by (simp only: map_append)
  then obtain r where "Ch c # t = map Ch (take 8 h) @ map Ch (uuid_middle h) @ r"
    by (auto simp: prefix_def)
  then have "sublist (map Ch (uuid_middle h)) (Ch c # t)"
    unfolding sublist_def by blast
  with safe show False by simp
qed

lemma prefix_append_drop:
  "prefix h (a @ b) \<Longrightarrow> length a \<le> length h \<Longrightarrow> prefix (drop (length a) h) b"
proof -
  assume p: "prefix h (a @ b)" and l: "length a \<le> length h"
  from p obtain r where e: "a @ b = h @ r" by (auto simp: prefix_def)
  then have "drop (length a) (a @ b) = drop (length a) (h @ r)" by simp
  with l have "b = drop (length a) h @ r" by simp
  then show ?thesis by simp
qed

text \<open>No sentinel starts inside another one.\<close>

lemma no_window_in_holder:
  assumes u: "\<And>i. is_uuid (hs i)" and h: "is_uuid h"
    and safe: "\<not> sublist (map Ch (uuid_middle h)) t"
    and k: "1 \<le> k" "k < 36"
  shows "\<not> prefix h (drop k (hs i) @ render hs t)"
proof
  assume p: "prefix h (drop k (hs i) @ render hs t)"
  from h have len: "length h = 36" by (rule is_uuid_length)
  from u have leni: "length (hs i) = 36" by (rule is_uuid_length)
  show False
  proof (cases "k \<le> 27")
    case True
    from p have "prefix (map char_class h) (map char_class (drop k (hs i) @ render hs t))"
      by (rule map_mono_prefix)
    then have "prefix uuid_pattern (drop k uuid_pattern @ map char_class (render hs t))"
      using h is_uuid_drop_classes [OF u, of k i] by (simp add: is_uuid_def)
    with uuid_shift_clash_2 [OF k(1) True] show False by blast
  next
    case False
    let ?j = "36 - k"
    from False k have j: "1 \<le> ?j" "?j \<le> 8" by simp_all
    from leni k have la: "length (drop k (hs i)) = ?j" by simp
    with len have "length (drop k (hs i)) \<le> length h" by simp
    from prefix_append_drop [OF p this] la
    have "prefix (drop ?j h) (render hs t)" by simp
    from window_has_middle [OF u h j this] safe show False by simp
  qed
qed

lemma py_replace_skip:
  "(\<And>k. k < length xs \<Longrightarrow> \<not> prefix (p # ps) (drop k xs @ rest)) \<Longrightarrow>
   py_replace (p # ps) new (xs @ rest) = xs @ py_replace (p # ps) new rest"
proof (induction xs)
  case Nil
  then show ?case by simp
next
  case (Cons x xs)
  from Cons.prems [of 0] have nm: "\<not> prefix (p # ps) (x # xs @ rest)" by simp
  have "py_replace (p # ps) new (xs @ rest) = xs @ py_replace (p # ps) new rest"
  proof (rule Cons.IH)
    fix k
    assume "k < length xs"
    then have "Suc k < length (x # xs)" by simp
    from Cons.prems [OF this] show "\<not> prefix (p # ps) (drop k xs @ rest)" by simp
  qed
  with py_replace_nomatch [OF nm] show ?case by simp
qed

text \<open>
  Replacing a sentinel in a text whose own characters never spell the middle of that
  sentinel: the same on the text and on the symbols.
\<close>

lemma replace_holder_render:
  assumes u: "\<And>i. is_uuid (hs i)"
  shows "\<not> sublist (map Ch (uuid_middle (hs i))) t \<Longrightarrow>
         (\<And>j. Holder j \<in> set t \<Longrightarrow> hs j = hs i \<Longrightarrow> j = i) \<Longrightarrow>
         py_replace (hs i) (render hs new) (render hs t) = render hs (expand (Holder i) new t)"
proof (induction t)
  case Nil
  from is_uuid_length [OF u, of i] obtain p ps where "hs i = p # ps"
    by (cases "hs i") auto
  then show ?case by simp
next
  case (Cons x t)
  from is_uuid_length [OF u, of i] obtain p ps where hi: "hs i = p # ps"
    by (cases "hs i") auto
  from is_uuid_length [OF u, of i] have len: "length (hs i) = 36" .
  have safe_t: "\<not> sublist (map Ch (uuid_middle (hs i))) t"
    using Cons.prems(1) by (auto simp: sublist_Cons_right)
  have ih: "py_replace (hs i) (render hs new) (render hs t) = render hs (expand (Holder i) new t)"
  proof (rule Cons.IH [OF safe_t])
    fix j
    assume "Holder j \<in> set t" and e: "hs j = hs i"
    then have "Holder j \<in> set (x # t)" by simp
    from Cons.prems(2) [OF this e] show "j = i" .
  qed
  show ?case
  proof (cases x)
    case (Ch c)
    have "\<not> prefix (hs i) (c # render hs t)"
      using Cons.prems(1) unfolding Ch by (rule no_window_at_text [OF u u])
    then have "py_replace (hs i) (render hs new) (c # render hs t)
                 = c # py_replace (hs i) (render hs new) (render hs t)"
      unfolding hi by (rule py_replace_nomatch)
    with ih show ?thesis unfolding Ch by simp
  next
    case (Holder j)
    show ?thesis
    proof (cases "j = i")
      case True
      have "prefix (hs i) (hs i @ render hs t)" by simp
      then have "py_replace (hs i) (render hs new) (hs i @ render hs t)
                   = render hs new @ py_replace (hs i) (render hs new) (drop (length (hs i)) (hs i @ render hs t))"
        unfolding hi by (rule py_replace_match)
      with ih show ?thesis unfolding Holder True by (simp add: render_append)
    next
      case False
      have ne: "hs j \<noteq> hs i"
      proof
        assume "hs j = hs i"
        with Cons.prems(2) [of j] Holder have "j = i" by simp
        with False show False by simp
      qed
      from is_uuid_length [OF u, of j] have lenj: "length (hs j) = 36" .
      have "py_replace (hs i) (render hs new) (hs j @ render hs t)
              = hs j @ py_replace (hs i) (render hs new) (render hs t)"
        unfolding hi
      proof (rule py_replace_skip)
        fix k
        assume k: "k < length (hs j)"
        show "\<not> prefix (p # ps) (drop k (hs j) @ render hs t)"
        proof (cases "k = 0")
          case True
          show ?thesis
          proof
            assume "prefix (p # ps) (drop k (hs j) @ render hs t)"
            then obtain r where "hs j @ render hs t = hs i @ r"
              unfolding True hi by (auto simp: prefix_def)
            with len lenj have "hs j = hs i" by (simp add: append_eq_append_conv)
            with ne show False by simp
          qed
        next
          case False
          with k lenj have "1 \<le> k" and "k < 36" by simp_all
          from no_window_in_holder [OF u u safe_t this] show ?thesis
            unfolding hi .
        qed
      qed
      with ih False show ?thesis unfolding Holder by simp
    qed
  qed
qed

text \<open>
  A run of symbols none of which is a blocker, if it is in the list after a replacement that
  puts blockers in, was in the list before.
\<close>

lemma prefix_after_replace:
  assumes new: "new \<noteq> []" "\<forall>x\<in>set new. blocker x"
  shows "\<forall>x\<in>set C. \<not> blocker x \<Longrightarrow> prefix C (py_replace (p # ps) new t) \<Longrightarrow> prefix C t"
proof (induction t arbitrary: C rule: length_induct)
  case (1 t)
  show ?case
  proof (cases C)
    case Nil
    then show ?thesis by simp
  next
    case (Cons c0 C')
    show ?thesis
    proof (cases t)
      case Nil
      with 1(3) Cons show ?thesis by simp
    next
      case tc: (Cons a t')
      show ?thesis
      proof (cases "prefix (p # ps) t")
        case True
        from new(1) obtain n0 ns where n: "new = n0 # ns" by (cases new) auto
        from py_replace_match [OF True] 1(3)
        have "prefix (c0 # C') (n0 # ns @ py_replace (p # ps) new (drop (length (p # ps)) t))"
          unfolding Cons n by simp
        then have "c0 = n0" by simp
        with new(2) n have "blocker c0" by simp
        with 1(2) Cons show ?thesis by simp
      next
        case False
        then have "py_replace (p # ps) new t = a # py_replace (p # ps) new t'"
          unfolding tc by (rule py_replace_nomatch)
        with 1(3) have a: "c0 = a" and r: "prefix C' (py_replace (p # ps) new t')"
          unfolding Cons by simp_all
        have "length t' < length t" unfolding tc by simp
        moreover from 1(2) have "\<forall>x\<in>set C'. \<not> blocker x" unfolding Cons by simp
        ultimately have "prefix C' t'" using 1(1) r by blast
        with a show ?thesis unfolding Cons tc by simp
      qed
    qed
  qed
qed

lemma sublist_after_blockers:
  assumes "C \<noteq> []" and "\<forall>x\<in>set C. \<not> blocker x"
  shows "\<forall>x\<in>set B. blocker x \<Longrightarrow> sublist C (B @ X) \<Longrightarrow> sublist C X"
proof (induction B)
  case Nil
  then show ?case by simp
next
  case (Cons b B)
  from assms(1) obtain c0 C' where C: "C = c0 # C'" by (cases C) auto
  from Cons.prems(2) have "prefix C (b # B @ X) \<or> sublist C (B @ X)"
    by (simp add: sublist_Cons_right)
  then show ?case
  proof
    assume "prefix C (b # B @ X)"
    then have "c0 = b" unfolding C by simp
    with Cons.prems(1) assms(2) C show ?thesis by simp
  next
    assume "sublist C (B @ X)"
    with Cons.IH Cons.prems(1) show ?thesis by simp
  qed
qed

lemma sublist_after_replace:
  assumes new: "new \<noteq> []" "\<forall>x\<in>set new. blocker x"
    and C: "C \<noteq> []" "\<forall>x\<in>set C. \<not> blocker x"
  shows "sublist C (py_replace (p # ps) new t) \<Longrightarrow> sublist C t"
proof (induction t rule: length_induct)
  case (1 t)
  show ?case
  proof (cases t)
    case Nil
    with 1(2) show ?thesis by simp
  next
    case (Cons a t')
    show ?thesis
    proof (cases "prefix (p # ps) t")
      case True
      let ?d = "drop (length (p # ps)) t"
      from py_replace_match [OF True] 1(2)
      have "sublist C (new @ py_replace (p # ps) new ?d)" by simp
      with sublist_after_blockers [OF C new(2)]
      have s: "sublist C (py_replace (p # ps) new ?d)" .
      have "length ?d < length t" unfolding Cons by simp
      with 1(1) s have "sublist C ?d" by blast
      then obtain qs ss where "?d = qs @ C @ ss" by (auto simp: sublist_def)
      then have "t = (take (length (p # ps)) t @ qs) @ C @ ss"
        using append_take_drop_id [of "length (p # ps)" t] by simp
      then show ?thesis unfolding sublist_def by blast
    next
      case False
      then have "py_replace (p # ps) new t = a # py_replace (p # ps) new t'"
        unfolding Cons by (rule py_replace_nomatch)
      with 1(2) have "prefix C (py_replace (p # ps) new t) \<or> sublist C (py_replace (p # ps) new t')"
        by (simp add: sublist_Cons_right)
      then show ?thesis
      proof
        assume "prefix C (py_replace (p # ps) new t)"
        with prefix_after_replace [OF new C(2)] have "prefix C t" .
        then show ?thesis by (rule prefix_imp_sublist)
      next
        assume s: "sublist C (py_replace (p # ps) new t')"
        have "length t' < length t" unfolding Cons by simp
        with 1(1) s have "sublist C t'" by blast
        then show ?thesis unfolding Cons by (simp add: sublist_Cons_right)
      qed
    qed
  qed
qed

lemma holders_simps [simp]:
  "holders h1 h2 h3 1 = h1" "holders h1 h2 h3 (Suc 0) = h1"
  "holders h1 h2 h3 2 = h2" "holders h1 h2 h3 3 = h3"
  by (simp_all add: holders_def)

lemma holders_uuid:
  "is_uuid h1 \<Longrightarrow> is_uuid h2 \<Longrightarrow> is_uuid h3 \<Longrightarrow> is_uuid (holders h1 h2 h3 i)"
  by (simp add: holders_def)

lemma middle_not_blocker:
  assumes "is_uuid h" and "x \<in> set (map Ch (uuid_middle h))"
  shows "\<not> blocker x"
proof -
  from assms(2) obtain c where x: "x = Ch c" and c: "c \<in> set (uuid_middle h)" by auto
  from c have "c \<in> set h"
    unfolding uuid_middle_def by (auto dest!: in_set_takeD in_set_dropD)
  with is_uuid_classes [OF assms(1)] x show ?thesis by (simp add: blocker_def)
qed

lemma middle_nonempty: "is_uuid h \<Longrightarrow> map Ch (uuid_middle h) \<noteq> []"
  using is_uuid_length [of h] by (auto simp: uuid_middle_def)

lemma safe_replace:
  assumes "is_uuid h" and "new \<noteq> []" and "\<forall>x\<in>set new. blocker x"
    and "\<not> sublist (map Ch (uuid_middle h)) t"
  shows "\<not> sublist (map Ch (uuid_middle h)) (py_replace (p # ps) new t)"
proof
  assume "sublist (map Ch (uuid_middle h)) (py_replace (p # ps) new t)"
  with sublist_after_replace [OF assms(2,3) middle_nonempty [OF assms(1)]]
    middle_not_blocker [OF assms(1)]
  have "sublist (map Ch (uuid_middle h)) t" by blast
  with assms(4) show False by simp
qed

lemma safe_text:
  "\<not> sublist m s \<Longrightarrow> \<not> sublist (map Ch m) (map Ch s)"
proof
  assume n: "\<not> sublist m s" and "sublist (map Ch m) (map Ch s)"
  then obtain ps ss where "map Ch s = ps @ map Ch m @ ss" by (auto simp: sublist_def)
  then have "render (\<lambda>_. []) (map Ch s) = render (\<lambda>_. []) (ps @ map Ch m @ ss)" by simp
  then have "s = render (\<lambda>_. []) ps @ m @ render (\<lambda>_. []) ss"
    by (simp add: render_append render_map_Ch)
  then have "sublist m s" unfolding sublist_def by blast
  with n show False by simp
qed

lemma text_safe:
  "\<not> sublist (map Ch m) (map Ch s) \<Longrightarrow> \<not> sublist m s"
proof
  assume n: "\<not> sublist (map Ch m) (map Ch s)" and "sublist m s"
  then obtain ps ss where "s = ps @ m @ ss" by (auto simp: sublist_def)
  then have "map Ch s = map Ch ps @ map Ch m @ map Ch ss" by simp
  then have "sublist (map Ch m) (map Ch s)" unfolding sublist_def by blast
  with n show False by simp
qed

lemma blocker_simps [simp]:
  "blocker (Holder i)" "blocker (Ch 58)" "blocker (Ch 61)" "blocker (Ch 92)"
  by (simp_all add: blocker_def char_class_def)

text \<open>The steps of \<open>escape_plpgsql_syms\<close>, and what each keeps.\<close>

lemma plpgsql_steps:
  assumes "plain t"
  shows "escape_plpgsql_syms t =
           py_replace [Holder 1] [Ch 58, Ch 58] (py_replace [Holder 2] [Ch 58, Ch 61]
             (py_replace [Holder 3] [Ch 92, Ch 58] (py_replace [Ch 58] [Ch 92, Ch 58]
               (py_replace [Ch 92, Ch 58] [Holder 3] (py_replace [Ch 58, Ch 61] [Holder 2]
                 (py_replace [Ch 58, Ch 58] [Holder 1] t))))))"
    and "set (py_replace [Ch 58] [Ch 92, Ch 58]
               (py_replace [Ch 92, Ch 58] [Holder 3] (py_replace [Ch 58, Ch 61] [Holder 2]
                 (py_replace [Ch 58, Ch 58] [Holder 1] t))))
           \<subseteq> range Ch \<union> {Holder 1, Holder 2, Holder 3}"
    and "set (py_replace [Holder 3] [Ch 92, Ch 58] (py_replace [Ch 58] [Ch 92, Ch 58]
               (py_replace [Ch 92, Ch 58] [Holder 3] (py_replace [Ch 58, Ch 61] [Holder 2]
                 (py_replace [Ch 58, Ch 58] [Holder 1] t)))))
           \<subseteq> range Ch \<union> {Holder 1, Holder 2}"
    and "set (py_replace [Holder 2] [Ch 58, Ch 61]
             (py_replace [Holder 3] [Ch 92, Ch 58] (py_replace [Ch 58] [Ch 92, Ch 58]
               (py_replace [Ch 92, Ch 58] [Holder 3] (py_replace [Ch 58, Ch 61] [Holder 2]
                 (py_replace [Ch 58, Ch 58] [Holder 1] t))))))
           \<subseteq> range Ch \<union> {Holder 1}"
    and "is_uuid h \<Longrightarrow> \<not> sublist (map Ch (uuid_middle h)) t \<Longrightarrow>
           \<not> sublist (map Ch (uuid_middle h))
               (py_replace [Ch 58] [Ch 92, Ch 58]
                 (py_replace [Ch 92, Ch 58] [Holder 3] (py_replace [Ch 58, Ch 61] [Holder 2]
                   (py_replace [Ch 58, Ch 58] [Holder 1] t))))
           \<and> \<not> sublist (map Ch (uuid_middle h))
               (py_replace [Holder 3] [Ch 92, Ch 58] (py_replace [Ch 58] [Ch 92, Ch 58]
                 (py_replace [Ch 92, Ch 58] [Holder 3] (py_replace [Ch 58, Ch 61] [Holder 2]
                   (py_replace [Ch 58, Ch 58] [Holder 1] t)))))
           \<and> \<not> sublist (map Ch (uuid_middle h))
               (py_replace [Holder 2] [Ch 58, Ch 61]
                 (py_replace [Holder 3] [Ch 92, Ch 58] (py_replace [Ch 58] [Ch 92, Ch 58]
                   (py_replace [Ch 92, Ch 58] [Holder 3] (py_replace [Ch 58, Ch 61] [Holder 2]
                     (py_replace [Ch 58, Ch 58] [Holder 1] t))))))
           \<and> \<not> sublist (map Ch (uuid_middle h))
               (py_replace [Holder 1] [Ch 58, Ch 58] (py_replace [Holder 2] [Ch 58, Ch 61]
                 (py_replace [Holder 3] [Ch 92, Ch 58] (py_replace [Ch 58] [Ch 92, Ch 58]
                   (py_replace [Ch 92, Ch 58] [Holder 3] (py_replace [Ch 58, Ch 61] [Holder 2]
                     (py_replace [Ch 58, Ch 58] [Holder 1] t)))))))"
proof -
  let ?t1 = "py_replace [Ch 58, Ch 58] [Holder 1] t"
  let ?t2 = "py_replace [Ch 58, Ch 61] [Holder 2] ?t1"
  let ?t3 = "py_replace [Ch 92, Ch 58] [Holder 3] ?t2"
  let ?t4 = "py_replace [Ch 58] [Ch 92, Ch 58] ?t3"
  let ?t5 = "py_replace [Holder 3] [Ch 92, Ch 58] ?t4"
  let ?t6 = "py_replace [Holder 2] [Ch 58, Ch 61] ?t5"
  let ?t7 = "py_replace [Holder 1] [Ch 58, Ch 58] ?t6"
  show "escape_plpgsql_syms t = ?t7"
    by (simp add: escape_plpgsql_syms_def restore_syms_def tokenize_syms_def backslash_def)
  from assms(1) have s0: "set t \<subseteq> range Ch" by (auto simp: plain_def)
  have s1: "set ?t1 \<subseteq> range Ch \<union> {Holder 1}"
    using set_py_replace [of "[Ch 58, Ch 58]" "[Holder 1]" t] s0 by auto
  have s2: "set ?t2 \<subseteq> range Ch \<union> {Holder 1, Holder 2}"
    using set_py_replace [of "[Ch 58, Ch 61]" "[Holder 2]" ?t1] s1 by auto
  have s3: "set ?t3 \<subseteq> range Ch \<union> {Holder 1, Holder 2, Holder 3}"
    using set_py_replace [of "[Ch 92, Ch 58]" "[Holder 3]" ?t2] s2 by auto
  show s4: "set ?t4 \<subseteq> range Ch \<union> {Holder 1, Holder 2, Holder 3}"
    using set_py_replace [of "[Ch 58]" "[Ch 92, Ch 58]" ?t3] s3 by auto
  have "?t5 = expand (Holder 3) [Ch 92, Ch 58] ?t4"
    by (rule py_replace_single)
  then show s5: "set ?t5 \<subseteq> range Ch \<union> {Holder 1, Holder 2}"
    using set_expand [of "Holder 3" "[Ch 92, Ch 58]" ?t4] s4 by auto
  have "?t6 = expand (Holder 2) [Ch 58, Ch 61] ?t5"
    by (rule py_replace_single)
  then show s6: "set ?t6 \<subseteq> range Ch \<union> {Holder 1}"
    using set_expand [of "Holder 2" "[Ch 58, Ch 61]" ?t5] s5 by auto
  assume h: "is_uuid h" and f0: "\<not> sublist (map Ch (uuid_middle h)) t"
  have f1: "\<not> sublist (map Ch (uuid_middle h)) ?t1"
    using h _ _ f0 by (rule safe_replace) simp_all
  have f2: "\<not> sublist (map Ch (uuid_middle h)) ?t2"
    using h _ _ f1 by (rule safe_replace) simp_all
  have f3: "\<not> sublist (map Ch (uuid_middle h)) ?t3"
    using h _ _ f2 by (rule safe_replace) simp_all
  have f4: "\<not> sublist (map Ch (uuid_middle h)) ?t4"
    using h _ _ f3 by (rule safe_replace) simp_all
  have f5: "\<not> sublist (map Ch (uuid_middle h)) ?t5"
    using h _ _ f4 by (rule safe_replace) simp_all
  have f6: "\<not> sublist (map Ch (uuid_middle h)) ?t6"
    using h _ _ f5 by (rule safe_replace) simp_all
  have f7: "\<not> sublist (map Ch (uuid_middle h)) ?t7"
    using h _ _ f6 by (rule safe_replace) simp_all
  from f4 f5 f6 f7 show "\<not> sublist (map Ch (uuid_middle h)) ?t4
           \<and> \<not> sublist (map Ch (uuid_middle h)) ?t5
           \<and> \<not> sublist (map Ch (uuid_middle h)) ?t6
           \<and> \<not> sublist (map Ch (uuid_middle h)) ?t7" by simp
qed

lemma plain_render: "plain t \<Longrightarrow> map Ch (render hs t) = t"
  by (induction t) (auto simp: plain_def)

lemma char_class_other [simp]:
  "char_class 58 = Other" "char_class 61 = Other" "char_class 92 = Other"
  by (simp_all add: char_class_def)

text \<open>
  With three distinct sentinels, none of whose middles is in the text,
  \<open>escape_colon_for_plpgsql\<close> does on the text what \<open>escape_plpgsql_syms\<close> does on its symbols.
\<close>

lemma escape_colon_for_plpgsql_syms:
  assumes u: "is_uuid h1" "is_uuid h2" "is_uuid h3"
    and d: "distinct [h1, h2, h3]"
    and safe: "\<not> sublist (uuid_middle h1) sql" "\<not> sublist (uuid_middle h2) sql"
      "\<not> sublist (uuid_middle h3) sql"
  shows "map Ch (escape_colon_for_plpgsql h1 h2 h3 sql) = escape_plpgsql_syms (map Ch sql)"
proof -
  let ?hs = "holders h1 h2 h3"
  let ?t = "map Ch sql"
  let ?t1 = "py_replace [Ch 58, Ch 58] [Holder 1] ?t"
  let ?t2 = "py_replace [Ch 58, Ch 61] [Holder 2] ?t1"
  let ?t3 = "py_replace [Ch 92, Ch 58] [Holder 3] ?t2"
  let ?t4 = "py_replace [Ch 58] [Ch 92, Ch 58] ?t3"
  let ?t5 = "py_replace [Holder 3] [Ch 92, Ch 58] ?t4"
  let ?t6 = "py_replace [Holder 2] [Ch 58, Ch 61] ?t5"
  let ?t7 = "py_replace [Holder 1] [Ch 58, Ch 58] ?t6"
  have U: "is_uuid (?hs i)" for i
    using u by (rule holders_uuid)
  have pl: "plain ?t" by (rule plain_map_Ch)
  note st = plpgsql_steps [OF pl]
  have sf: "\<not> sublist (map Ch (uuid_middle (?hs i))) ?t" for i
  proof -
    from safe have "\<not> sublist (uuid_middle (?hs i)) sql"
      by (simp add: holders_def)
    then show ?thesis by (rule safe_text)
  qed
  have e1: "py_replace [58, 58] h1 sql = render ?hs ?t1"
    using replace_text_render [where hs = "?hs", OF U, where p = 58 and ps = "[58]" and new = "[Holder 1]" and t = "?t"] by (simp add: render_map_Ch)
  have e2: "py_replace [58, 61] h2 (render ?hs ?t1) = render ?hs ?t2"
    using replace_text_render [where hs = "?hs", OF U, where p = 58 and ps = "[61]" and new = "[Holder 2]" and t = "?t1"] by simp
  have e3: "py_replace [92, 58] h3 (render ?hs ?t2) = render ?hs ?t3"
    using replace_text_render [where hs = "?hs", OF U, where p = 92 and ps = "[58]" and new = "[Holder 3]" and t = "?t2"] by simp
  have e4: "py_replace [58] [92, 58] (render ?hs ?t3) = render ?hs ?t4"
    using replace_text_render [where hs = "?hs", OF U, where p = 58 and ps = "[]" and new = "[Ch 92, Ch 58]" and t = "?t3"] by simp
  have e5: "py_replace h3 [92, 58] (render ?hs ?t4) = render ?hs ?t5"
  proof -
    have "py_replace (?hs 3) (render ?hs [Ch 92, Ch 58]) (render ?hs ?t4)
            = render ?hs (expand (Holder 3) [Ch 92, Ch 58] ?t4)"
    proof (rule replace_holder_render [where hs = "?hs", OF U])
      show "\<not> sublist (map Ch (uuid_middle (?hs 3))) ?t4"
        using st(5) [OF U sf] by blast
      fix j
      assume "Holder j \<in> set ?t4" and e: "?hs j = ?hs 3"
      with st(2) have "j = 1 \<or> j = 2 \<or> j = 3" by auto
      with e d show "j = 3" by auto
    qed
    then show ?thesis by (simp add: py_replace_single)
  qed
  have e6: "py_replace h2 [58, 61] (render ?hs ?t5) = render ?hs ?t6"
  proof -
    have "py_replace (?hs 2) (render ?hs [Ch 58, Ch 61]) (render ?hs ?t5)
            = render ?hs (expand (Holder 2) [Ch 58, Ch 61] ?t5)"
    proof (rule replace_holder_render [where hs = "?hs", OF U])
      show "\<not> sublist (map Ch (uuid_middle (?hs 2))) ?t5"
        using st(5) [OF U sf] by blast
      fix j
      assume "Holder j \<in> set ?t5" and e: "?hs j = ?hs 2"
      with st(3) have "j = 1 \<or> j = 2" by auto
      with e d show "j = 2" by auto
    qed
    then show ?thesis by (simp add: py_replace_single)
  qed
  have e7: "py_replace h1 [58, 58] (render ?hs ?t6) = render ?hs ?t7"
  proof -
    have "py_replace (?hs 1) (render ?hs [Ch 58, Ch 58]) (render ?hs ?t6)
            = render ?hs (expand (Holder 1) [Ch 58, Ch 58] ?t6)"
    proof (rule replace_holder_render [where hs = "?hs", OF U])
      show "\<not> sublist (map Ch (uuid_middle (?hs 1))) ?t6"
        using st(5) [OF U sf] by blast
      fix j
      assume "Holder j \<in> set ?t6" and e: "?hs j = ?hs 1"
      with st(4) have "j = 1" by auto
      then show "j = 1" .
    qed
    then show ?thesis by (simp add: py_replace_single)
  qed
  have "escape_colon_for_plpgsql h1 h2 h3 sql
          = py_replace h1 [58, 58] (py_replace h2 [58, 61] (py_replace h3 [92, 58]
              (py_replace [58] [92, 58] (py_replace [92, 58] h3 (py_replace [58, 61] h2
                (py_replace [58, 58] h1 sql))))))"
    by (simp add: escape_colon_for_plpgsql_def Let_def backslash_def)
  also have "\<dots> = render ?hs ?t7"
    by (simp only: e1 e2 e3 e4 e5 e6 e7)
  also have "?t7 = escape_plpgsql_syms ?t"
    by (simp only: st(1))
  finally have "escape_colon_for_plpgsql h1 h2 h3 sql = render ?hs (escape_plpgsql_syms ?t)" .
  then show ?thesis
    using plain_render [OF escape_plpgsql_syms_plain [OF pl], of ?hs] by simp
qed

lemma find_acc_sublist: "find_acc sub acc s \<noteq> None \<longleftrightarrow> sublist sub s"
  by (induction s arbitrary: acc) (auto simp: sublist_Cons_right simp del: Cons_prefix_Cons)

lemma py_in_sublist: "py_in sub s \<longleftrightarrow> sublist sub s"
  unfolding py_in_def by (rule find_acc_sublist)

lemma middle_has_hyphen:
  assumes "is_uuid h"
  shows "45 \<in> set (uuid_middle h)"
proof -
  from assms have len: "length h = 36" by (rule is_uuid_length)
  from assms have "map char_class h ! 8 = uuid_pattern ! 8" by (simp add: is_uuid_def)
  with len have "char_class (h ! 8) = Hyphen" by (simp add: uuid_pattern_def)
  then have "h ! 8 = 45" by (simp add: char_class_def split: if_splits)
  moreover from len have "uuid_middle h ! 0 = h ! 8"
    by (simp add: uuid_middle_def)
  moreover from len have "0 < length (uuid_middle h)"
    by (simp add: uuid_middle_def)
  ultimately show ?thesis by (metis nth_mem)
qed

lemma no_hyphen_no_middle:
  assumes "is_uuid h" and "45 \<notin> set s"
  shows "\<not> sublist (uuid_middle h) s"
proof
  assume "sublist (uuid_middle h) s"
  then have "set (uuid_middle h) \<subseteq> set s" by (rule set_mono_sublist)
  with middle_has_hyphen [OF assms(1)] assms(2) show False by blast
qed

text \<open>The same for \<open>escape_colon_for_sql\<close>, which has one sentinel.\<close>

lemma escape_colon_for_sql_syms:
  assumes u: "is_uuid h" and safe: "\<not> sublist (uuid_middle h) sql"
  shows "map Ch (escape_colon_for_sql h sql) = escape_sql_syms (map Ch sql)"
proof -
  let ?hs = "\<lambda>i :: nat. h"
  let ?t = "map Ch sql"
  let ?t1 = "py_replace [Ch 58, Ch 58] [Holder 1] ?t"
  let ?t2 = "py_replace [Ch 58] [Ch 92, Ch 58] ?t1"
  let ?t3 = "py_replace [Holder 1] [Ch 58, Ch 58] ?t2"
  have U: "is_uuid (?hs i)" for i by (rule u)
  have s1: "set ?t1 \<subseteq> range Ch \<union> {Holder 1}"
    using set_py_replace [of "[Ch 58, Ch 58]" "[Holder 1]" ?t] by auto
  have s2: "set ?t2 \<subseteq> range Ch \<union> {Holder 1}"
    using set_py_replace [of "[Ch 58]" "[Ch 92, Ch 58]" ?t1] s1 by auto
  have "?t3 = expand (Holder 1) [Ch 58, Ch 58] ?t2"
    by (rule py_replace_single)
  then have s3: "set ?t3 \<subseteq> range Ch"
    using set_expand [of "Holder 1" "[Ch 58, Ch 58]" ?t2] s2 by auto
  have f0: "\<not> sublist (map Ch (uuid_middle h)) ?t"
    using safe by (rule safe_text)
  have f1: "\<not> sublist (map Ch (uuid_middle h)) ?t1"
    using u _ _ f0 by (rule safe_replace) simp_all
  have f2: "\<not> sublist (map Ch (uuid_middle h)) ?t2"
    using u _ _ f1 by (rule safe_replace) simp_all
  have e1: "py_replace [58, 58] h sql = render ?hs ?t1"
    using replace_text_render [where hs = "?hs", OF U, where p = 58 and ps = "[58]"
        and new = "[Holder 1]" and t = "?t"]
    by (simp add: render_map_Ch)
  have e2: "py_replace [58] [92, 58] (render ?hs ?t1) = render ?hs ?t2"
    using replace_text_render [where hs = "?hs", OF U, where p = 58 and ps = "[]"
        and new = "[Ch 92, Ch 58]" and t = "?t1"]
    by simp
  have e3: "py_replace h [58, 58] (render ?hs ?t2) = render ?hs ?t3"
  proof -
    have "py_replace (?hs 1) (render ?hs [Ch 58, Ch 58]) (render ?hs ?t2)
            = render ?hs (expand (Holder 1) [Ch 58, Ch 58] ?t2)"
    proof (rule replace_holder_render [where hs = "?hs", OF U])
      show "\<not> sublist (map Ch (uuid_middle h)) ?t2" by (rule f2)
      fix j
      assume "Holder j \<in> set ?t2"
      with s2 show "j = 1" by auto
    qed
    then show ?thesis by (simp add: py_replace_single)
  qed
  have "escape_colon_for_sql h sql
          = py_replace h [58, 58] (py_replace [58] [92, 58] (py_replace [58, 58] h sql))"
    by (simp add: escape_colon_for_sql_def Let_def backslash_def)
  also have "\<dots> = render ?hs ?t3"
    by (simp only: e1 e2 e3)
  finally have r: "escape_colon_for_sql h sql = render ?hs ?t3" .
  have t3: "escape_sql_syms ?t = ?t3"
    by (simp add: escape_sql_syms_def backslash_def)
  from s3 have "plain ?t3" by (auto simp: plain_def)
  from plain_render [OF this, of ?hs] show ?thesis
    unfolding r t3 .
qed

lemma map_Ch_eq: "map Ch a = map Ch b \<Longrightarrow> a = b"
  by (simp add: inj_map_eq_map inj_on_def)

lemmas ex_defs = ex_h1_def ex_h2_def ex_h3_def ex_k1_def ex_k2_def ex_k3_def

lemma ex_uuid:
  "is_uuid ex_h1" "is_uuid ex_h2" "is_uuid ex_h3" "is_uuid ex_k1" "is_uuid ex_k2" "is_uuid ex_k3"
  by (simp_all add: ex_defs is_uuid_def char_class_def uuid_pattern_def)

lemma ex_distinct: "distinct [ex_h1, ex_h2, ex_h3]" "distinct [ex_k1, ex_k2, ex_k3]"
  by (simp_all add: ex_defs)

lemma ex_input_free:
  "\<not> py_in (uuid_middle ex_h1) (str ''x := 1; y::int; z:=2 a:b'')"
  "\<not> py_in (uuid_middle ex_h2) (str ''x := 1; y::int; z:=2 a:b'')"
  "\<not> py_in (uuid_middle ex_h3) (str ''x := 1; y::int; z:=2 a:b'')"
  "\<not> py_in (uuid_middle ex_k1) (str ''x := 1; y::int; z:=2 a:b'')"
  "\<not> py_in (uuid_middle ex_k2) (str ''x := 1; y::int; z:=2 a:b'')"
  "\<not> py_in (uuid_middle ex_k3) (str ''x := 1; y::int; z:=2 a:b'')"
  by (simp_all add: ex_defs py_in_def uuid_middle_def)

lemma ex_first_pass:
  "escape_colon_for_plpgsql ex_h1 ex_h2 ex_h3 (str ''x := 1; y::int; z:=2 a:b'')
     = str ''x := 1; y::int; z:=2 a'' @ [backslash] @ str '':b''"
  by (simp add: ex_defs escape_colon_for_plpgsql_def Let_def backslash_def)

lemma ex_overlap_first:
  "escape_colon_for_plpgsql ex_h1 ex_h2 ex_h3 ex_overlap
     = [backslash] @ str '':::-aaaa-4aaa-8aaa-aaaadeadbeef''"
  by (simp add: ex_defs ex_overlap_def escape_colon_for_plpgsql_def Let_def backslash_def)

lemma ex_overlap_second:
  "escape_colon_for_plpgsql ex_k1 ex_k2 ex_k3 ([backslash] @ str '':::-aaaa-4aaa-8aaa-aaaadeadbeef'')
     = [backslash] @ str ''::'' @ [backslash] @ str '':-aaaa-4aaa-8aaa-aaaadeadbeef''"
  by (simp add: ex_defs escape_colon_for_plpgsql_def Let_def backslash_def)

section \<open>Escaping colons: the seven replacements and the single reading\<close>

lemma escape_sql_syms_unfold:
  "escape_sql_syms t =
     expand (Holder 1) [Ch 58, Ch 58] (expand (Ch 58) [Ch 92, Ch 58] (py_replace [Ch 58, Ch 58] [Holder 1] t))"
  by (simp add: escape_sql_syms_def backslash_def py_replace_single)

text \<open>On symbols, \<open>escape_colon_for_sql\<close> is the reading from left to right.\<close>

lemma escape_sql_syms_spec:
  "escape_sql_syms (map Ch s) = map Ch (escape_colon_for_sql_spec s)"
  unfolding escape_sql_syms_unfold
  by (induction s rule: escape_colon_for_sql_spec.induct) simp_all

text \<open>Writing the sentinels of a scan out gives the text back.\<close>

lemma restore_scan: "restore_syms (scan_syms s) = map Ch s"
  unfolding restore_syms_unfold
  by (induction s rule: scan_syms.induct) simp_all

lemma restore_escape_scan:
  "restore_syms (expand (Ch 58) [Ch 92, Ch 58] (scan_syms s)) = map Ch (escape_colon_for_plpgsql_spec s)"
  unfolding restore_syms_unfold
  by (induction s rule: scan_syms.induct) simp_all

text \<open>The first symbol of a scan.\<close>

lemma scan_head:
  assumes "scan_syms (d # r) = x # rest"
  shows "(d = 58 \<and> starts_pair r \<and> (x = Holder 1 \<or> x = Holder 2))
       \<or> (d = 58 \<and> \<not> starts_pair r \<and> x = Ch 58)
       \<or> (d \<noteq> 58 \<and> (x = Ch d \<or> (x = Holder 3 \<and> d = 92 \<and> r \<noteq> [] \<and> hd r = 58 \<and> \<not> starts_pair (tl r))))"
  using assms by (cases r) (auto simp: starts_pair_def split: if_splits)

text \<open>A scan has no bad neighbours: it is what \<open>tokenize_syms\<close> makes of the text.\<close>

lemma pairs_Cons_scan:
  assumes "(a, b) \<in> adjacent_pairs (x # t)"
  shows "(a = x \<and> (\<exists>rest. t = b # rest)) \<or> (a, b) \<in> adjacent_pairs t"
  using assms by (cases t) (auto simp: adjacent_pairs_def)

lemma scan_no_bad_pair:
  "(a, b) \<in> adjacent_pairs (scan_syms s) \<Longrightarrow> \<not> bad_pair a b"
proof (induction s arbitrary: a b rule: scan_syms.induct)
  case 1
  then show ?case by (simp add: adjacent_pairs_Nil)
next
  case (2 c)
  then show ?case by (simp add: adjacent_pairs_def)
next
  case (3 c d r)
  have not_bad_holder: "\<not> bad_pair (Holder 1) y" "\<not> bad_pair (Holder 2) y" for y
    by (simp_all add: bad_pair_iff)
  consider (cast) "c = 58 \<and> d = 58"
    | (assign) "\<not> (c = 58 \<and> d = 58)" "c = 58 \<and> d = 61"
    | (lone) "\<not> (c = 58 \<and> d = 58)" "\<not> (c = 58 \<and> d = 61)" "c = 58"
    | (escaped) "\<not> (c = 58 \<and> d = 58)" "\<not> (c = 58 \<and> d = 61)" "c \<noteq> 58"
        "c = 92 \<and> d = 58 \<and> \<not> starts_pair r"
    | (other) "\<not> (c = 58 \<and> d = 58)" "\<not> (c = 58 \<and> d = 61)" "c \<noteq> 58"
        "\<not> (c = 92 \<and> d = 58 \<and> \<not> starts_pair r)"
    by blast
  then show ?case
  proof cases
    case cast
    with "3.prems" have "(a, b) \<in> adjacent_pairs (Holder 1 # scan_syms r)" by simp
    from pairs_Cons_scan [OF this] "3.IH"(1) [OF cast] not_bad_holder show ?thesis by blast
  next
    case assign
    with "3.prems" have "(a, b) \<in> adjacent_pairs (Holder 2 # scan_syms r)" by simp
    from pairs_Cons_scan [OF this] "3.IH"(2) [OF assign] not_bad_holder show ?thesis by blast
  next
    case lone
    with "3.prems" have "(a, b) \<in> adjacent_pairs (Ch 58 # scan_syms (d # r))" by simp
    from pairs_Cons_scan [OF this]
    consider rest where "a = Ch 58" "scan_syms (d # r) = b # rest"
      | "(a, b) \<in> adjacent_pairs (scan_syms (d # r))" by blast
    then show ?thesis
    proof cases
      case 1
      from scan_head [OF 1(2)] lone have "b = Ch d \<or> b = Holder 3" by auto
      with lone 1(1) show ?thesis by (auto simp: bad_pair_iff)
    next
      case 2
      with "3.IH"(3) [OF lone] show ?thesis by blast
    qed
  next
    case escaped
    with "3.prems" have "(a, b) \<in> adjacent_pairs (Holder 3 # scan_syms r)" by simp
    from pairs_Cons_scan [OF this]
    consider rest where "a = Holder 3" "scan_syms r = b # rest"
      | "(a, b) \<in> adjacent_pairs (scan_syms r)" by blast
    then show ?thesis
    proof cases
      case 1
      from 1(2) obtain e r' where r: "r = e # r'" by (cases r) auto
      with escaped have e: "e \<noteq> 58" "e \<noteq> 61" by (auto simp: starts_pair_def)
      from scan_head [OF 1(2) [unfolded r]] e have "b = Ch e \<or> b = Holder 3" by auto
      with e 1(1) show ?thesis by (auto simp: bad_pair_iff)
    next
      case 2
      with "3.IH"(4) [OF escaped(1,2) _ escaped(4)] escaped(3) show ?thesis by blast
    qed
  next
    case other
    with "3.prems" have "(a, b) \<in> adjacent_pairs (Ch c # scan_syms (d # r))" by simp
    from pairs_Cons_scan [OF this]
    consider rest where "a = Ch c" "scan_syms (d # r) = b # rest"
      | "(a, b) \<in> adjacent_pairs (scan_syms (d # r))" by blast
    then show ?thesis
    proof cases
      case 1
      from scan_head [OF 1(2)] other have "\<not> (c = 92 \<and> b = Ch 58)" by auto
      with other 1(1) show ?thesis by (auto simp: bad_pair_iff)
    next
      case 2
      with "3.IH"(5) [OF other(1,2) _ other(4)] other(3) show ?thesis by blast
    qed
  qed
qed

lemma tokenize_scan: "tokenize_syms (map Ch s) = scan_syms s"
proof -
  have "tokenize_syms (restore_syms (scan_syms s)) = scan_syms s"
    by (rule tokenize_restore) (rule scan_no_bad_pair)
  then show ?thesis by (simp only: restore_scan)
qed

lemma escape_plpgsql_syms_spec:
  "escape_plpgsql_syms (map Ch s) = map Ch (escape_colon_for_plpgsql_spec s)"
  by (simp only: escape_plpgsql_syms_unfold tokenize_scan restore_escape_scan)

section \<open>Escaping colons: the two functions\<close>

text \<open>
  C8. Whatever string of the form of \<open>str(uuid4())\<close> the sentinel is, and whatever the text,
  provided the text has not in it the sixteen characters from the first hyphen of the sentinel
  to its last, \<open>escape_colon_for_sql\<close> returns what the reading from left to right returns:
  every pair of colons is kept and every other colon gets a backslash before it. The same for
  \<open>escape_colon_for_plpgsql\<close> and any three distinct such sentinels: every \<open>::\<close> and \<open>:=\<close> is
  kept, a colon that has its backslash already is kept, and every other colon gets a
  backslash. So \<open>a::int\<close> and \<open>x := 1; y::int; z:=2\<close>, which have no lone colon, are returned as
  they are, whatever the sentinels; and with a lone colon in them, \<open>a:b::int\<close> becomes
  \<open>a\:b::int\<close> and \<open>x := 1; y::int; z:=2 a:b\<close> becomes \<open>x := 1; y::int; z:=2 a\:b\<close>.
\<close>

theorem escape_colon_as_specified:
  assumes "is_uuid h" and "is_uuid h1" and "is_uuid h2" and "is_uuid h3"
    and "distinct [h1, h2, h3]"
  shows "(\<not> py_in (uuid_middle h) sql \<longrightarrow> escape_colon_for_sql h sql = escape_colon_for_sql_spec sql)
         \<and> (\<not> py_in (uuid_middle h1) sql \<and> \<not> py_in (uuid_middle h2) sql
              \<and> \<not> py_in (uuid_middle h3) sql
             \<longrightarrow> escape_colon_for_plpgsql h1 h2 h3 sql = escape_colon_for_plpgsql_spec sql)
         \<and> escape_colon_for_sql h (str ''a::int'') = str ''a::int''
         \<and> escape_colon_for_sql h (str ''a:b::int'') = str ''a'' @ [backslash] @ str '':b::int''
         \<and> escape_colon_for_plpgsql h1 h2 h3 (str ''x := 1; y::int; z:=2'')
             = str ''x := 1; y::int; z:=2''
         \<and> escape_colon_for_plpgsql h1 h2 h3 (str ''x := 1; y::int; z:=2 a:b'')
             = str ''x := 1; y::int; z:=2 a'' @ [backslash] @ str '':b''"
proof -
  have sql_spec: "escape_colon_for_sql h s = escape_colon_for_sql_spec s"
    if "\<not> sublist (uuid_middle h) s" for s
  proof -
    have "map Ch (escape_colon_for_sql h s) = escape_sql_syms (map Ch s)"
      using assms(1) that by (rule escape_colon_for_sql_syms)
    also have "\<dots> = map Ch (escape_colon_for_sql_spec s)"
      by (rule escape_sql_syms_spec)
    finally show ?thesis by (rule map_Ch_eq)
  qed
  have plpgsql_spec: "escape_colon_for_plpgsql h1 h2 h3 s = escape_colon_for_plpgsql_spec s"
    if "\<not> sublist (uuid_middle h1) s" "\<not> sublist (uuid_middle h2) s"
      "\<not> sublist (uuid_middle h3) s" for s
  proof -
    have "map Ch (escape_colon_for_plpgsql h1 h2 h3 s) = escape_plpgsql_syms (map Ch s)"
      using assms(2-5) that by (rule escape_colon_for_plpgsql_syms)
    also have "\<dots> = map Ch (escape_colon_for_plpgsql_spec s)"
      by (rule escape_plpgsql_syms_spec)
    finally show ?thesis by (rule map_Ch_eq)
  qed
  have n1: "45 \<notin> set (str ''a::int'')" by simp
  have n2: "45 \<notin> set (str ''a:b::int'')" by simp
  have n3: "45 \<notin> set (str ''x := 1; y::int; z:=2'')" by simp
  have n4: "45 \<notin> set (str ''x := 1; y::int; z:=2 a:b'')" by simp
  have e1: "escape_colon_for_sql_spec (str ''a::int'') = str ''a::int''"
    by simp
  have e2: "escape_colon_for_sql_spec (str ''a:b::int'') = str ''a'' @ [backslash] @ str '':b::int''"
    by (simp add: backslash_def)
  have e3: "escape_colon_for_plpgsql_spec (str ''x := 1; y::int; z:=2'') = str ''x := 1; y::int; z:=2''"
    by (simp add: starts_pair_def)
  have e4: "escape_colon_for_plpgsql_spec (str ''x := 1; y::int; z:=2 a:b'')
              = str ''x := 1; y::int; z:=2 a'' @ [backslash] @ str '':b''"
    by (simp add: starts_pair_def backslash_def)
  have c1: "escape_colon_for_sql h (str ''a::int'') = str ''a::int''"
    using sql_spec [OF no_hyphen_no_middle [OF assms(1) n1]] e1 by (rule trans)
  have c2: "escape_colon_for_sql h (str ''a:b::int'') = str ''a'' @ [backslash] @ str '':b::int''"
    using sql_spec [OF no_hyphen_no_middle [OF assms(1) n2]] e2 by (rule trans)
  have c3: "escape_colon_for_plpgsql h1 h2 h3 (str ''x := 1; y::int; z:=2'')
             = str ''x := 1; y::int; z:=2''"
    using plpgsql_spec [OF no_hyphen_no_middle [OF assms(2) n3] no_hyphen_no_middle [OF assms(3) n3]
        no_hyphen_no_middle [OF assms(4) n3]] e3 by (rule trans)
  have c4: "escape_colon_for_plpgsql h1 h2 h3 (str ''x := 1; y::int; z:=2 a:b'')
             = str ''x := 1; y::int; z:=2 a'' @ [backslash] @ str '':b''"
    using plpgsql_spec [OF no_hyphen_no_middle [OF assms(2) n4] no_hyphen_no_middle [OF assms(3) n4]
        no_hyphen_no_middle [OF assms(4) n4]] e4 by (rule trans)
  have g1: "\<not> py_in (uuid_middle h) sql \<longrightarrow> escape_colon_for_sql h sql = escape_colon_for_sql_spec sql"
    using sql_spec [of sql] by (simp add: py_in_sublist)
  have g2: "\<not> py_in (uuid_middle h1) sql \<and> \<not> py_in (uuid_middle h2) sql
              \<and> \<not> py_in (uuid_middle h3) sql
             \<longrightarrow> escape_colon_for_plpgsql h1 h2 h3 sql = escape_colon_for_plpgsql_spec sql"
    using plpgsql_spec [of sql] by (simp add: py_in_sublist)
  from g1 g2 c1 c2 c3 c4 show ?thesis by (intro conjI)
qed

lemma ex_spec_values:
  "escape_colon_for_sql_spec (str ''x := 1; y::int; z:=2 a:b'')
     = str ''x '' @ [backslash] @ str '':= 1; y::int; z'' @ [backslash] @ str '':=2 a'' @ [backslash] @ str '':b''"
  "escape_colon_for_plpgsql_spec (str ''x := 1; y::int; z:=2 a:b'')
     = str ''x := 1; y::int; z:=2 a'' @ [backslash] @ str '':b''"
  by (simp_all add: starts_pair_def backslash_def)

theorem escape_colon_as_specified_witness:
  "is_uuid ex_h1 \<and> is_uuid ex_k1 \<and> is_uuid ex_k2 \<and> is_uuid ex_k3
   \<and> distinct [ex_k1, ex_k2, ex_k3]
   \<and> \<not> py_in (uuid_middle ex_h1) (str ''x := 1; y::int; z:=2 a:b'')
   \<and> \<not> py_in (uuid_middle ex_k1) (str ''x := 1; y::int; z:=2 a:b'')
   \<and> \<not> py_in (uuid_middle ex_k2) (str ''x := 1; y::int; z:=2 a:b'')
   \<and> \<not> py_in (uuid_middle ex_k3) (str ''x := 1; y::int; z:=2 a:b'')
   \<and> escape_colon_for_sql ex_h1 (str ''x := 1; y::int; z:=2 a:b'')
       = escape_colon_for_sql_spec (str ''x := 1; y::int; z:=2 a:b'')
   \<and> escape_colon_for_sql_spec (str ''x := 1; y::int; z:=2 a:b'')
       = str ''x '' @ [backslash] @ str '':= 1; y::int; z'' @ [backslash] @ str '':=2 a''
           @ [backslash] @ str '':b''
   \<and> escape_colon_for_plpgsql ex_k1 ex_k2 ex_k3 (str ''x := 1; y::int; z:=2 a:b'')
       = escape_colon_for_plpgsql_spec (str ''x := 1; y::int; z:=2 a:b'')
   \<and> escape_colon_for_plpgsql_spec (str ''x := 1; y::int; z:=2 a:b'')
       = str ''x := 1; y::int; z:=2 a'' @ [backslash] @ str '':b''
   \<and> escape_colon_for_sql ex_h1 (str ''a::int'') = str ''a::int''
   \<and> escape_colon_for_sql ex_h1 (str ''a:b::int'') = str ''a'' @ [backslash] @ str '':b::int''
   \<and> escape_colon_for_plpgsql ex_k1 ex_k2 ex_k3 (str ''x := 1; y::int; z:=2'')
       = str ''x := 1; y::int; z:=2''
   \<and> escape_colon_for_plpgsql ex_k1 ex_k2 ex_k3 (str ''x := 1; y::int; z:=2 a:b'')
       = str ''x := 1; y::int; z:=2 a'' @ [backslash] @ str '':b''"
  using escape_colon_as_specified [OF ex_uuid(1) ex_uuid(4) ex_uuid(5) ex_uuid(6) ex_distinct(2),
      of "str ''x := 1; y::int; z:=2 a:b''"]
    ex_uuid ex_distinct ex_input_free ex_spec_values by blast

text \<open>
  C10 (as amended). \<open>escape_colon_for_plpgsql\<close> applied to its own result returns that result,
  when the three sentinels of each of the two runs are distinct and the input contains none of
  the six, not even the sixteen characters from the first hyphen of one to its last.
\<close>

theorem escape_colon_for_plpgsql_twice:
  assumes "is_uuid h1" and "is_uuid h2" and "is_uuid h3" and "distinct [h1, h2, h3]"
    and "is_uuid k1" and "is_uuid k2" and "is_uuid k3" and "distinct [k1, k2, k3]"
    and "\<not> py_in (uuid_middle h1) sql" and "\<not> py_in (uuid_middle h2) sql"
    and "\<not> py_in (uuid_middle h3) sql" and "\<not> py_in (uuid_middle k1) sql"
    and "\<not> py_in (uuid_middle k2) sql" and "\<not> py_in (uuid_middle k3) sql"
  shows "escape_colon_for_plpgsql k1 k2 k3 (escape_colon_for_plpgsql h1 h2 h3 sql)
           = escape_colon_for_plpgsql h1 h2 h3 sql"
proof -
  let ?out = "escape_colon_for_plpgsql h1 h2 h3 sql"
  let ?t = "map Ch sql"
  have first: "map Ch ?out = escape_plpgsql_syms ?t"
    using assms(1-4) assms(9-11) unfolding py_in_sublist by (rule escape_colon_for_plpgsql_syms)
  have pl: "plain ?t" by (rule plain_map_Ch)
  have keep: "\<not> sublist (uuid_middle k) ?out" if k: "is_uuid k" "\<not> py_in (uuid_middle k) sql" for k
  proof -
    from k(2) have "\<not> sublist (map Ch (uuid_middle k)) ?t"
      unfolding py_in_sublist by (rule safe_text)
    from plpgsql_steps(5) [OF pl k(1) this] plpgsql_steps(1) [OF pl]
    have "\<not> sublist (map Ch (uuid_middle k)) (escape_plpgsql_syms ?t)" by simp
    then have "\<not> sublist (map Ch (uuid_middle k)) (map Ch ?out)"
      unfolding first .
    then show ?thesis by (rule text_safe)
  qed
  have "map Ch (escape_colon_for_plpgsql k1 k2 k3 ?out) = escape_plpgsql_syms (map Ch ?out)"
    using assms(5-8) keep [OF assms(5) assms(12)] keep [OF assms(6) assms(13)]
      keep [OF assms(7) assms(14)]
    by (rule escape_colon_for_plpgsql_syms)
  also have "\<dots> = map Ch ?out"
    using pl first by (rule escape_plpgsql_syms_idem)
  finally show ?thesis by (rule map_Ch_eq)
qed

theorem escape_colon_for_plpgsql_twice_witness:
  "is_uuid ex_h1 \<and> is_uuid ex_h2 \<and> is_uuid ex_h3 \<and> distinct [ex_h1, ex_h2, ex_h3]
   \<and> is_uuid ex_k1 \<and> is_uuid ex_k2 \<and> is_uuid ex_k3 \<and> distinct [ex_k1, ex_k2, ex_k3]
   \<and> \<not> py_in (uuid_middle ex_h1) (str ''x := 1; y::int; z:=2 a:b'')
   \<and> \<not> py_in (uuid_middle ex_h2) (str ''x := 1; y::int; z:=2 a:b'')
   \<and> \<not> py_in (uuid_middle ex_h3) (str ''x := 1; y::int; z:=2 a:b'')
   \<and> \<not> py_in (uuid_middle ex_k1) (str ''x := 1; y::int; z:=2 a:b'')
   \<and> \<not> py_in (uuid_middle ex_k2) (str ''x := 1; y::int; z:=2 a:b'')
   \<and> \<not> py_in (uuid_middle ex_k3) (str ''x := 1; y::int; z:=2 a:b'')
   \<and> escape_colon_for_plpgsql ex_h1 ex_h2 ex_h3 (str ''x := 1; y::int; z:=2 a:b'')
       = str ''x := 1; y::int; z:=2 a'' @ [backslash] @ str '':b''
   \<and> escape_colon_for_plpgsql ex_k1 ex_k2 ex_k3
         (escape_colon_for_plpgsql ex_h1 ex_h2 ex_h3 (str ''x := 1; y::int; z:=2 a:b''))
       = escape_colon_for_plpgsql ex_h1 ex_h2 ex_h3 (str ''x := 1; y::int; z:=2 a:b'')"
  using escape_colon_for_plpgsql_twice [OF ex_uuid(1) ex_uuid(2) ex_uuid(3) ex_distinct(1)
      ex_uuid(4) ex_uuid(5) ex_uuid(6) ex_distinct(2) ex_input_free]
    ex_uuid ex_distinct ex_input_free ex_first_pass by blast

text \<open>
  The input \<open>ex_overlap\<close> contains no sentinel, only the first 28 characters of the first:
  the \<open>::\<close> after them becomes the sentinel, whose restoration finds the sentinel eight
  characters early, and the second run escapes the colon that this leaves alone.
\<close>

theorem escape_colon_for_plpgsql_not_idempotent:
  "is_uuid ex_h1 \<and> is_uuid ex_h2 \<and> is_uuid ex_h3 \<and> distinct [ex_h1, ex_h2, ex_h3]
   \<and> is_uuid ex_k1 \<and> is_uuid ex_k2 \<and> is_uuid ex_k3 \<and> distinct [ex_k1, ex_k2, ex_k3]
   \<and> \<not> py_in ex_h1 ex_overlap \<and> \<not> py_in ex_h2 ex_overlap \<and> \<not> py_in ex_h3 ex_overlap
   \<and> \<not> py_in ex_k1 ex_overlap \<and> \<not> py_in ex_k2 ex_overlap \<and> \<not> py_in ex_k3 ex_overlap
   \<and> \<not> py_in ex_k1 (escape_colon_for_plpgsql ex_h1 ex_h2 ex_h3 ex_overlap)
   \<and> \<not> py_in ex_k2 (escape_colon_for_plpgsql ex_h1 ex_h2 ex_h3 ex_overlap)
   \<and> \<not> py_in ex_k3 (escape_colon_for_plpgsql ex_h1 ex_h2 ex_h3 ex_overlap)
   \<and> escape_colon_for_plpgsql ex_k1 ex_k2 ex_k3 (escape_colon_for_plpgsql ex_h1 ex_h2 ex_h3 ex_overlap)
       \<noteq> escape_colon_for_plpgsql ex_h1 ex_h2 ex_h3 ex_overlap"
proof -
  have a: "\<not> py_in ex_h1 ex_overlap \<and> \<not> py_in ex_h2 ex_overlap \<and> \<not> py_in ex_h3 ex_overlap
   \<and> \<not> py_in ex_k1 ex_overlap \<and> \<not> py_in ex_k2 ex_overlap \<and> \<not> py_in ex_k3 ex_overlap"
    by (simp add: ex_defs ex_overlap_def py_in_def backslash_def)
  have b: "\<not> py_in ex_k1 (escape_colon_for_plpgsql ex_h1 ex_h2 ex_h3 ex_overlap)
   \<and> \<not> py_in ex_k2 (escape_colon_for_plpgsql ex_h1 ex_h2 ex_h3 ex_overlap)
   \<and> \<not> py_in ex_k3 (escape_colon_for_plpgsql ex_h1 ex_h2 ex_h3 ex_overlap)"
    unfolding ex_overlap_first by (simp add: ex_defs py_in_def backslash_def)
  have c: "escape_colon_for_plpgsql ex_k1 ex_k2 ex_k3 (escape_colon_for_plpgsql ex_h1 ex_h2 ex_h3 ex_overlap)
       \<noteq> escape_colon_for_plpgsql ex_h1 ex_h2 ex_h3 ex_overlap"
    unfolding ex_overlap_first ex_overlap_second by (simp add: backslash_def)
  from a b c ex_uuid ex_distinct show ?thesis by blast
qed

end
